(* ===== verification/Prelude.thy ===== *)
theory Prelude
  imports Main "HOL-Library.List_Lexorder" "HOL-Library.Char_ord"
begin

text \<open>
  Shared vocabulary of the development: the names of the model's basic types, the
  theorem collections the component theories fill, and generic facts on lists and
  the lexicographic order of strings (MongoDB compares strings byte-wise, which for
  the ASCII keys of this program is the order \<open>List_Lexorder\<close> puts on
  \<open>char list\<close>).
\<close>

named_theorems handler_defs "definitions of the request handlers, unfolded together"
named_theorems js_simps "evaluation equations of the modelled JavaScript built-ins"

type_synonym date_key = string
type_synonym millis = int

subsection \<open>Replacing the first match of a list\<close>

text \<open>
  MongoDB's \<open>findOneAndUpdate\<close> rewrites the first document in natural order that
  matches the filter.
\<close>

lemma find_Some_member: "find P xs = Some x \<Longrightarrow> x \<in> set xs \<and> P x"
  by (auto simp: find_Some_iff)

fun replace_first :: "('a \<Rightarrow> bool) \<Rightarrow> 'a \<Rightarrow> 'a list \<Rightarrow> 'a list" where
  "replace_first P y [] = []"
| "replace_first P y (x # xs) = (if P x then y # xs else x # replace_first P y xs)"

lemma length_replace_first [simp]: "length (replace_first P y xs) = length xs"
  by (induction xs) auto

lemma set_replace_first_subset: "set (replace_first P y xs) \<subseteq> insert y (set xs)"
  by (induction xs) auto

lemma replace_first_no_match [simp]: "\<forall>x \<in> set xs. \<not> P x \<Longrightarrow> replace_first P y xs = xs"
  by (induction xs) auto

lemma replace_first_member:
  "find P xs = Some x \<Longrightarrow> y \<in> set (replace_first P y xs)"
  by (induction xs) (auto split: if_splits)

lemma find_replace_first_same:
  assumes "find P xs = Some x" and "P y"
  shows "find P (replace_first P y xs) = Some y"
  using assms by (induction xs) (auto split: if_splits)

lemma find_replace_first_other:
  assumes "find P xs = Some x" and "\<not> Q y" and "\<And>z. Q z \<Longrightarrow> \<not> P z"
  shows "find Q (replace_first P y xs) = find Q xs"
  using assms by (induction xs) (auto split: if_splits)

lemma distinct_map_replace_first:
  "\<lbrakk>distinct (map f xs); find P xs = Some x; f y = f x \<or> f y \<notin> f ` set xs\<rbrakk> \<Longrightarrow>
   distinct (map f (replace_first P y xs))"
proof (induction xs)
  case Nil
  then show ?case by simp
next
  case (Cons z zs)
  show ?case
  proof (cases "P z")
    case True
    with Cons.prems show ?thesis by auto
  next
    case False
    with Cons.prems have "find P zs = Some x" and "x \<in> set zs"
      by (auto dest: find_Some_member)
    with Cons.prems have "f z \<noteq> f y" by auto
    with False Cons.prems \<open>find P zs = Some x\<close> Cons.IH show ?thesis
      using set_replace_first_subset [of P y zs] by auto
  qed
qed

subsection \<open>Searching and removing\<close>

lemma find_None_iff_all: "find P xs = None \<longleftrightarrow> (\<forall>x \<in> set xs. \<not> P x)"
  by (induction xs) auto

lemma find_append_None [simp]:
  "find P xs = None \<Longrightarrow> find P (xs @ ys) = find P ys"
  by (induction xs) auto

lemma remove1_distinct_filter:
  "distinct (map f xs) \<Longrightarrow> x \<in> set xs \<Longrightarrow> remove1 x xs = filter (\<lambda>y. f y \<noteq> f x) xs"
proof (induction xs)
  case Nil
  then show ?case by simp
next
  case (Cons z zs)
  show ?case
  proof (cases "z = x")
    case True
    with Cons.prems have "\<forall>y \<in> set zs. f y \<noteq> f x" by (auto simp: image_iff)
    with True show ?thesis by (simp add: filter_id_conv)
  next
    case False
    with Cons show ?thesis by auto
  qed
qed

lemma find_key_distinct:
  "distinct (map f xs) \<Longrightarrow> find (\<lambda>x. f x = k) xs = Some x \<longleftrightarrow> x \<in> set xs \<and> f x = k"
  by (induction xs) (auto simp: image_iff)

lemma find_filter_conj: "find P (filter Q xs) = find (\<lambda>x. P x \<and> Q x) xs"
  by (induction xs) auto

lemma distinct_map_remove1 [intro]:
  "distinct (map f xs) \<Longrightarrow> distinct (map f (remove1 x xs))"
  by (induction xs) (auto dest: subsetD [OF set_remove1_subset])

subsection \<open>Lexicographic order of equal-length prefixes\<close>

text \<open>
  Keys of fixed width compare field by field: the first differing block decides.
\<close>

lemma less_eq_append_same_length:
  "length xs = length ys \<Longrightarrow> (xs @ us \<le> ys @ vs) \<longleftrightarrow> (xs < ys \<or> xs = ys \<and> us \<le> vs)"
proof (induction xs ys rule: list_induct2)
  case Nil
  then show ?case by simp
next
  case (Cons x xs y ys)
  then show ?case by auto
qed

lemma less_append_same_length:
  "length xs = length ys \<Longrightarrow> (xs @ us < ys @ vs) \<longleftrightarrow> (xs < ys \<or> xs = ys \<and> us < vs)"
proof (induction xs ys rule: list_induct2)
  case Nil
  then show ?case by simp
next
  case (Cons x xs y ys)
  then show ?case by auto
qed


text \<open>A list split at the first occurrence of a separator.\<close>

lemma split_at_first:
  "c \<notin> set xs \<Longrightarrow> c \<notin> set xs' \<Longrightarrow> xs @ c # ys = xs' @ c # ys' \<Longrightarrow> xs = xs' \<and> ys = ys'"
proof (induction xs arbitrary: xs')
  case Nil
  then show ?case by (cases xs') auto
next
  case (Cons x xs)
  then show ?case by (cases xs') auto
qed

end
