(* ===== verification/Documents.thy ===== *)
theory Documents
  imports Prelude
begin

text \<open>
  The persisted documents of \<open>src/server.js\<close> (the Mongoose schemas of lines 67-98),
  the server's state (the three collections and the Socket.IO broadcast channel), and
  the few Mongoose/MongoDB calls the handlers make: validation of required fields,
  the unique indexes, \<open>findOne\<close>, \<open>findOneAndUpdate\<close> with \<open>upsert\<close>,
  \<open>findOneAndDelete\<close> and \<open>io.emit\<close>.  A collection is a list of documents in
  natural (insertion) order.
\<close>

subsection \<open>Documents\<close>

datatype role = Admin | Editor | Viewer

text \<open>A user document; \<open>uid\<close> stands for the MongoDB \<open>_id\<close>.\<close>

record user =
  uid :: nat
  user_name :: string
  user_identifier :: string
  role :: role

text \<open>
  A calendar entry.  The optional string paths are absent (\<open>None\<close>) until some write
  sets them; the array path \<open>imageUrls\<close> is \<open>[]\<close> by Mongoose's default.
\<close>

record entry =
  dateKey :: date_key
  name :: "string option"
  address :: "string option"
  phone :: "string option"
  editor :: "string option"
  imageUrls :: "string list"

datatype action = Create | Update | Delete

record changelog =
  date :: millis
  user :: string
  action :: action
  entryDateKey :: date_key
  previousData :: "entry option"
  newData :: "entry option"

text \<open>The four Socket.IO events the server emits.\<close>

datatype event =
    UserAdded user
  | UserDeleted nat
  | CalendarEntryUpdated entry
  | CalendarEntryDeleted date_key

text \<open>
  Failures of a Mongoose write: a validation error lists the schema paths that failed,
  a duplicate-key error (E11000) names the unique index that was hit.
\<close>

datatype db_error = ValidationError "string list" | DuplicateKey string

record srv =
  user_docs :: "user list"
  entry_docs :: "entry list"
  log_docs :: "changelog list"
  emitted :: "event list"
  next_uid :: nat

definition srv_init :: srv where
  "srv_init = \<lparr>user_docs = [], entry_docs = [], log_docs = [], emitted = [], next_uid = 0\<rparr>"

subsection \<open>Request bodies\<close>

text \<open>
  The JSON body of a request on \<open>/api/calendar\<close>: each schema path may be present or
  not.  Paths outside the schema are dropped by Mongoose's strict mode and are not
  modelled.
\<close>

record entry_body =
  b_dateKey :: "date_key option"
  b_name :: "string option"
  b_address :: "string option"
  b_phone :: "string option"
  b_editor :: "string option"
  b_imageUrls :: "string list option"

definition empty_body :: entry_body where
  "empty_body = \<lparr>b_dateKey = None, b_name = None, b_address = None, b_phone = None,
     b_editor = None, b_imageUrls = None\<rparr>"

subsection \<open>Mongoose operations\<close>

text \<open>
  A \<open>required: true\<close> string path fails validation when it is missing or the empty
  string (Mongoose's required validator for strings).
\<close>

definition required :: "string \<Rightarrow> string option \<Rightarrow> string list" where
  "required path v = (case v of None \<Rightarrow> [path] | Some s \<Rightarrow> if s = [] then [path] else [])"

definition set_opt :: "'a option \<Rightarrow> 'a \<Rightarrow> 'a" where
  "set_opt v x = (case v of None \<Rightarrow> x | Some y \<Rightarrow> y)"

text \<open>
  An update document without operators is a \<open>$set\<close> of the paths it carries: each
  present path replaces the stored one, absent paths are kept.
\<close>

definition apply_body :: "entry_body \<Rightarrow> entry \<Rightarrow> entry" where
  "apply_body b e =
     e\<lparr>dateKey := set_opt (b_dateKey b) (dateKey e),
       name := (case b_name b of None \<Rightarrow> name e | Some v \<Rightarrow> Some v),
       address := (case b_address b of None \<Rightarrow> address e | Some v \<Rightarrow> Some v),
       phone := (case b_phone b of None \<Rightarrow> phone e | Some v \<Rightarrow> Some v),
       editor := (case b_editor b of None \<Rightarrow> editor e | Some v \<Rightarrow> Some v),
       imageUrls := set_opt (b_imageUrls b) (imageUrls e)\<rparr>"

text \<open>The document an upsert starts from: the filter's equality path and the defaults.\<close>

definition new_entry_doc :: "date_key \<Rightarrow> entry" where
  "new_entry_doc k = \<lparr>dateKey = k, name = None, address = None, phone = None,
     editor = None, imageUrls = []\<rparr>"

definition find_entry :: "entry list \<Rightarrow> date_key \<Rightarrow> entry option" where
  "find_entry es k = find (\<lambda>e. dateKey e = k) es"

text \<open>Insertion of a new document under the unique index on \<open>dateKey\<close>.\<close>

definition insert_entry :: "entry list \<Rightarrow> entry \<Rightarrow> db_error + entry list" where
  "insert_entry es e =
     (if find_entry es (dateKey e) \<noteq> None then Inl (DuplicateKey ''dateKey'') else Inr (es @ [e]))"

text \<open>
  \<open>findOneAndUpdate({dateKey: k}, body, {new: true, upsert: true})\<close>: the first
  document with key \<open>k\<close> is rewritten, or, when there is none, a new one is built from
  the filter and inserted.  Either way the unique index refuses a result whose key is
  held by another document.  Update validators are off by default, so no path is
  validated.
\<close>

definition find_one_and_upsert ::
  "entry list \<Rightarrow> date_key \<Rightarrow> entry_body \<Rightarrow> db_error + entry list \<times> entry" where
  "find_one_and_upsert es k b =
     (case find_entry es k of
        Some e \<Rightarrow>
          (let e' = apply_body b e in
           if dateKey e' \<noteq> k \<and> find_entry es (dateKey e') \<noteq> None
           then Inl (DuplicateKey ''dateKey'')
           else Inr (replace_first (\<lambda>x. dateKey x = k) e' es, e'))
      | None \<Rightarrow>
          (let e' = apply_body b (new_entry_doc k) in
           if find_entry es (dateKey e') \<noteq> None
           then Inl (DuplicateKey ''dateKey'')
           else Inr (es @ [e'], e')))"

text \<open>\<open>findOneAndDelete({dateKey: k})\<close>: the deleted document, if any.\<close>

definition find_one_and_delete :: "entry list \<Rightarrow> date_key \<Rightarrow> entry option \<times> entry list" where
  "find_one_and_delete es k =
     (case find_entry es k of None \<Rightarrow> (None, es) | Some e \<Rightarrow> (Some e, remove1 e es))"

text \<open>\<open>io.emit\<close>: the event is broadcast to every connected socket.\<close>

definition emit :: "event \<Rightarrow> srv \<Rightarrow> srv" where
  "emit ev s = s\<lparr>emitted := emitted s @ [ev]\<rparr>"

subsection \<open>Replies\<close>

text \<open>
  What a handler sends back: an HTTP error with its message, or a success status
  (200 or 201) with a JSON body.  Error messages produced by Mongoose are represented
  by the \<open>db_error\<close> they render; \<open>BadRequestText\<close> is a 400 with a plain-text
  body (the upload route).
\<close>

datatype http_error =
    NotFound string
  | BadRequest db_error
  | ServerError db_error
  | BadRequestText string

fun status_of :: "http_error \<Rightarrow> nat" where
  "status_of (NotFound _) = 404"
| "status_of (BadRequest _) = 400"
| "status_of (ServerError _) = 500"
| "status_of (BadRequestText _) = 400"

datatype payload =
    PEntry entry
  | PEntries "entry list"
  | PUser user
  | PUsers "user list"
  | PLogs "changelog list"
  | PMessage string
  | PImageUrl string

type_synonym reply = "http_error + nat \<times> payload"

subsection \<open>Facts on the collection operations\<close>

text \<open>The unique index on \<open>dateKey\<close>, as a property of a collection.\<close>

definition keys_unique :: "entry list \<Rightarrow> bool" where
  "keys_unique es \<longleftrightarrow> distinct (map dateKey es)"

lemma find_entry_Some: "find_entry es k = Some e \<Longrightarrow> e \<in> set es \<and> dateKey e = k"
  by (auto simp: find_entry_def find_Some_iff)

lemma find_entry_None: "find_entry es k = None \<longleftrightarrow> k \<notin> dateKey ` set es"
  by (auto simp: find_entry_def find_None_iff)

lemma find_entry_unique:
  "keys_unique es \<Longrightarrow> e \<in> set es \<Longrightarrow> find_entry es (dateKey e) = Some e"
  by (induction es) (auto simp: find_entry_def keys_unique_def)

lemma find_entry_append_new [simp]:
  "find_entry (es @ [e]) k = (case find_entry es k of None \<Rightarrow> (if dateKey e = k then Some e else None) | Some x \<Rightarrow> Some x)"
  by (induction es) (auto simp: find_entry_def)

lemma dateKey_apply_body [simp]: "dateKey (apply_body b e) = set_opt (b_dateKey b) (dateKey e)"
  by (simp add: apply_body_def)

lemma insert_entry_unique:
  "keys_unique es \<Longrightarrow> insert_entry es e = Inr es' \<Longrightarrow> keys_unique es'"
  by (auto simp: insert_entry_def keys_unique_def find_entry_None split: if_splits)

lemma find_one_and_upsert_unique:
  assumes "keys_unique es" and "find_one_and_upsert es k b = Inr (es', e')"
  shows "keys_unique es'"
proof (cases "find_entry es k")
  case None
  with assms show ?thesis
    by (auto simp: find_one_and_upsert_def keys_unique_def find_entry_None Let_def
        split: if_splits)
next
  case (Some e)
  then have e: "e \<in> set es" "dateKey e = k" by (auto dest: find_entry_Some)
  from Some assms(2) have e': "e' = apply_body b e"
    and fresh: "dateKey e' = k \<or> dateKey e' \<notin> dateKey ` set es"
    and es': "es' = replace_first (\<lambda>x. dateKey x = k) e' es"
    by (auto simp: find_one_and_upsert_def Let_def find_entry_None split: if_splits)
  from e fresh have "dateKey e' = dateKey e \<or> dateKey e' \<notin> dateKey ` set es" by auto
  with assms(1) Some show ?thesis
    unfolding keys_unique_def find_entry_def es' by (rule distinct_map_replace_first)
qed

lemma find_one_and_upsert_member:
  assumes "find_one_and_upsert es k b = Inr (es', e)"
  shows "e \<in> set es'"
proof (cases "find_entry es k")
  case None
  with assms show ?thesis by (auto simp: find_one_and_upsert_def Let_def split: if_splits)
next
  case (Some x)
  with assms have "es' = replace_first (\<lambda>z. dateKey z = k) e es"
    by (auto simp: find_one_and_upsert_def Let_def split: if_splits)
  with Some show ?thesis unfolding find_entry_def by (simp add: replace_first_member)
qed

lemma find_one_and_delete_unique:
  "keys_unique es \<Longrightarrow> find_one_and_delete es k = (r, es') \<Longrightarrow> keys_unique es'"
  by (auto simp: find_one_and_delete_def keys_unique_def split: option.splits)

end
