(* ===== verification/Change_Log.thy ===== *)
theory Change_Log
  imports Documents
begin

text \<open>
  The audit log of \<open>src/server.js\<close>: the record a handler builds with
  \<open>new ChangeLog({...})\<close> and its \<open>log.save()\<close> (validation of the required paths,
  then insertion), and the well-formedness every stored record has.  The month query
  on the log is in \<open>Month_Query\<close>.
\<close>

text \<open>
  \<open>new ChangeLog({user, action, entryDateKey, previousData, newData})\<close> followed by
  \<open>save()\<close>: \<open>date\<close> takes its default \<open>Date.now\<close>, and the required paths
  \<open>user\<close> and \<open>entryDateKey\<close> are validated (lines 90-98).
\<close>

definition new_log ::
  "millis \<Rightarrow> string option \<Rightarrow> action \<Rightarrow> date_key option \<Rightarrow> entry option \<Rightarrow> entry option
   \<Rightarrow> db_error + changelog" where
  "new_log now u a k prev new =
     (case (u, k) of
        (Some u', Some k') \<Rightarrow>
          if u' \<noteq> [] \<and> k' \<noteq> []
          then Inr \<lparr>date = now, user = u', action = a, entryDateKey = k',
                    previousData = prev, newData = new\<rparr>
          else Inl (ValidationError (required ''user'' u @ required ''entryDateKey'' k))
      | _ \<Rightarrow> Inl (ValidationError (required ''user'' u @ required ''entryDateKey'' k)))"

definition append_log :: "changelog \<Rightarrow> srv \<Rightarrow> srv" where
  "append_log l s = s\<lparr>log_docs := log_docs s @ [l]\<rparr>"

text \<open>
  A stored record has a non-empty actor and key, a \<open>create\<close> record has only a new
  snapshot, a \<open>delete\<close> record only an old one, an \<open>update\<close> record a new one.
\<close>

fun log_wf :: "changelog \<Rightarrow> bool" where
  "log_wf l \<longleftrightarrow> user l \<noteq> [] \<and> entryDateKey l \<noteq> [] \<and>
     (case action l of
        Create \<Rightarrow> previousData l = None \<and> newData l \<noteq> None
      | Update \<Rightarrow> newData l \<noteq> None
      | Delete \<Rightarrow> previousData l \<noteq> None \<and> newData l = None)"

declare log_wf.simps [simp del]

lemma new_log_Inr:
  "new_log now u a k prev new = Inr l \<longleftrightarrow>
   (\<exists>u' k'. u = Some u' \<and> k = Some k' \<and> u' \<noteq> [] \<and> k' \<noteq> [] \<and>
      l = \<lparr>date = now, user = u', action = a, entryDateKey = k',
           previousData = prev, newData = new\<rparr>)"
  by (auto simp: new_log_def split: option.splits)

lemma new_log_Inl:
  "new_log now u a k prev new = Inl err \<longleftrightarrow>
   err = ValidationError (required ''user'' u @ required ''entryDateKey'' k) \<and>
   required ''user'' u @ required ''entryDateKey'' k \<noteq> []"
  by (auto simp: new_log_def required_def split: option.splits)

lemma new_log_ok_iff:
  "(\<exists>l. new_log now u a k prev new = Inr l) \<longleftrightarrow>
   required ''user'' u = [] \<and> required ''entryDateKey'' k = []"
  by (auto simp: new_log_def required_def split: option.splits)

lemma append_log_simps [simp]:
  "log_docs (append_log l s) = log_docs s @ [l]"
  "entry_docs (append_log l s) = entry_docs s"
  "user_docs (append_log l s) = user_docs s"
  "emitted (append_log l s) = emitted s"
  "next_uid (append_log l s) = next_uid s"
  by (simp_all add: append_log_def)

lemma emit_simps [simp]:
  "log_docs (emit ev s) = log_docs s"
  "entry_docs (emit ev s) = entry_docs s"
  "user_docs (emit ev s) = user_docs s"
  "emitted (emit ev s) = emitted s @ [ev]"
  "next_uid (emit ev s) = next_uid s"
  by (simp_all add: emit_def)

lemma new_log_wf:
  assumes "new_log now u a k prev new = Inr l"
    and "a = Create \<Longrightarrow> prev = None \<and> new \<noteq> None"
    and "a = Update \<Longrightarrow> new \<noteq> None"
    and "a = Delete \<Longrightarrow> prev \<noteq> None \<and> new = None"
  shows "log_wf l"
  using assms by (cases a) (auto simp: new_log_Inr log_wf.simps)

lemma new_log_create_wf: "new_log now u Create k None (Some e) = Inr l \<Longrightarrow> log_wf l"
  by (auto simp: new_log_Inr log_wf.simps)

lemma new_log_update_wf: "new_log now u Update k prev (Some e) = Inr l \<Longrightarrow> log_wf l"
  by (auto simp: new_log_Inr log_wf.simps)

lemma new_log_delete_wf: "new_log now u Delete k (Some e) None = Inr l \<Longrightarrow> log_wf l"
  by (auto simp: new_log_Inr log_wf.simps)

lemmas new_log_wf_rules = new_log_create_wf new_log_update_wf new_log_delete_wf

end
