(* ===== verification/Entry_Store.thy ===== *)
theory Entry_Store
  imports Change_Log
begin

text \<open>
  The calendar-entry routes of \<open>src/server.js\<close> (lines 178-249): reading one entry,
  creating one (\<open>POST\<close>), the upsert (\<open>PUT\<close>, the only write the client issues) and
  deletion.  Each handler takes the server state and returns the reply and the new
  state; its steps are the awaited calls of the route in their order: store write,
  change-log validation and insertion, broadcast.  A failure after the store write
  leaves that write in place, as the code does.
\<close>

subsection \<open>Handlers\<close>

text \<open>\<open>GET /api/calendar/:dateKey\<close> (lines 178-188).\<close>

definition get_entry :: "date_key \<Rightarrow> srv \<Rightarrow> reply" where
  "get_entry k s =
     (case find_entry (entry_docs s) k of
        None \<Rightarrow> Inl (NotFound ''Entrada no encontrada'')
      | Some e \<Rightarrow> Inr (200, PEntry e))"

text \<open>\<open>new CalendarEntry(req.body)\<close> and the validation its \<open>save()\<close> runs.\<close>

definition entry_of_body :: "entry_body \<Rightarrow> db_error + entry" where
  "entry_of_body b =
     (case b_dateKey b of
        Some k \<Rightarrow> if k \<noteq> [] then Inr (apply_body b (new_entry_doc k))
                 else Inl (ValidationError [''dateKey''])
      | None \<Rightarrow> Inl (ValidationError [''dateKey'']))"

text \<open>\<open>POST /api/calendar\<close> (lines 190-206).\<close>

definition post_entry :: "millis \<Rightarrow> entry_body \<Rightarrow> srv \<Rightarrow> reply \<times> srv" where
  "post_entry now b s =
     (case entry_of_body b of
        Inl err \<Rightarrow> (Inl (BadRequest err), s)
      | Inr e \<Rightarrow>
          (case insert_entry (entry_docs s) e of
             Inl err \<Rightarrow> (Inl (BadRequest err), s)
           | Inr es \<Rightarrow>
               (let s1 = s\<lparr>entry_docs := es\<rparr> in
                case new_log now (b_editor b) Create (b_dateKey b) None (Some e) of
                  Inl err \<Rightarrow> (Inl (BadRequest err), s1)
                | Inr l \<Rightarrow> (Inr (201, PEntry e), emit (CalendarEntryUpdated e) (append_log l s1)))))"

text \<open>
  \<open>PUT /api/calendar/:dateKey\<close> (lines 208-229): the old document is read first, the
  upsert returns the new one, the log record pairs them under the action
  \<open>update\<close>, whether or not the document existed.
\<close>

definition put_entry :: "millis \<Rightarrow> date_key \<Rightarrow> entry_body \<Rightarrow> srv \<Rightarrow> reply \<times> srv" where
  "put_entry now k b s =
     (let old = find_entry (entry_docs s) k in
      case find_one_and_upsert (entry_docs s) k b of
        Inl err \<Rightarrow> (Inl (BadRequest err), s)
      | Inr (es, e) \<Rightarrow>
          (let s1 = s\<lparr>entry_docs := es\<rparr> in
           case new_log now (b_editor b) Update (Some k) old (Some e) of
             Inl err \<Rightarrow> (Inl (BadRequest err), s1)
           | Inr l \<Rightarrow> (Inr (200, PEntry e), emit (CalendarEntryUpdated e) (append_log l s1))))"

text \<open>
  \<open>DELETE /api/calendar/:dateKey\<close> (lines 231-249): the request carries no actor,
  the record names \<open>'unknown'\<close>.
\<close>

definition delete_entry :: "millis \<Rightarrow> date_key \<Rightarrow> srv \<Rightarrow> reply \<times> srv" where
  "delete_entry now k s =
     (case find_one_and_delete (entry_docs s) k of
        (None, _) \<Rightarrow> (Inl (NotFound ''Entrada no encontrada''), s)
      | (Some e, es) \<Rightarrow>
          (let s1 = s\<lparr>entry_docs := es\<rparr> in
           case new_log now (Some ''unknown'') Delete (Some k) (Some e) None of
             Inl err \<Rightarrow> (Inl (ServerError err), s1)
           | Inr l \<Rightarrow> (Inr (200, PMessage ''Entrada eliminada''),
                       emit (CalendarEntryDeleted k) (append_log l s1))))"

declare get_entry_def [handler_defs] post_entry_def [handler_defs]
  put_entry_def [handler_defs] delete_entry_def [handler_defs]

subsection \<open>The merge an upsert performs\<close>

text \<open>
  The entry a \<open>PUT\<close> leaves under its key: the body's paths over the prior document,
  or over a fresh one.
\<close>

definition merged :: "entry list \<Rightarrow> date_key \<Rightarrow> entry_body \<Rightarrow> entry" where
  "merged es k b =
     apply_body b (case find_entry es k of Some e \<Rightarrow> e | None \<Rightarrow> new_entry_doc k)"

lemma set_opt_keep: "v \<in> {None, Some k} \<Longrightarrow> set_opt v k = k"
  by (auto simp: set_opt_def)

lemma find_one_and_upsert_keep:
  assumes "b_dateKey b \<in> {None, Some k}"
  shows "\<exists>es'. find_one_and_upsert es k b = Inr (es', merged es k b) \<and>
               find_entry es' k = Some (merged es k b)"
proof (cases "find_entry es k")
  case None
  with assms show ?thesis
    by (auto simp: find_one_and_upsert_def merged_def new_entry_doc_def set_opt_keep Let_def)
next
  case (Some e)
  then have "dateKey e = k" by (auto dest: find_entry_Some)
  with assms have key: "dateKey (apply_body b e) = k" by (simp add: set_opt_keep)
  with Some have "find_entry (replace_first (\<lambda>x. dateKey x = k) (apply_body b e) es) k =
      Some (apply_body b e)"
    unfolding find_entry_def by (rule find_replace_first_same)
  with Some key show ?thesis
    by (simp add: find_one_and_upsert_def merged_def Let_def)
qed

lemma put_entry_Inr:
  assumes "find_one_and_upsert (entry_docs s) k b = Inr (es, e)"
    and "new_log now (b_editor b) Update (Some k) (find_entry (entry_docs s) k) (Some e) = Inr l"
  shows "put_entry now k b s =
           (Inr (200, PEntry e), emit (CalendarEntryUpdated e) (append_log l (s\<lparr>entry_docs := es\<rparr>)))"
  using assms by (simp add: put_entry_def)

lemma put_entry_log_fails:
  assumes "find_one_and_upsert (entry_docs s) k b = Inr (es, e)"
    and "new_log now (b_editor b) Update (Some k) (find_entry (entry_docs s) k) (Some e) = Inl err"
  shows "put_entry now k b s = (Inl (BadRequest err), s\<lparr>entry_docs := es\<rparr>)"
  using assms by (simp add: put_entry_def)

lemma put_entry_upsert_fails:
  "find_one_and_upsert (entry_docs s) k b = Inl err \<Longrightarrow>
   put_entry now k b s = (Inl (BadRequest err), s)"
  by (simp add: put_entry_def)

lemma editor_ok_new_log:
  "b_editor b = Some u \<Longrightarrow> u \<noteq> [] \<Longrightarrow> k \<noteq> [] \<Longrightarrow>
   new_log now (b_editor b) a (Some k) prev new =
     Inr \<lparr>date = now, user = u, action = a, entryDateKey = k, previousData = prev, newData = new\<rparr>"
  by (simp add: new_log_def)

lemma apply_body_idem [simp]: "apply_body b (apply_body b e) = apply_body b e"
  by (simp add: apply_body_def set_opt_def split: option.splits)

lemma merged_again:
  assumes "find_entry es' k = Some (merged es k b)"
  shows "merged es' k b = merged es k b"
  using assms by (simp add: merged_def)

subsection \<open>The abstract store\<close>

text \<open>
  The contract of the entry store (spec \<section>4.1) on a map from keys to entries:
  an upsert merges the supplied paths onto the prior entry, or onto an empty one, and
  returns the result; a delete returns the prior entry and drops the key.  A
  collection is abstracted by \<open>find_entry\<close>, its key-to-document map.
\<close>

definition upsert_spec ::
  "(date_key \<rightharpoonup> entry) \<Rightarrow> date_key \<Rightarrow> entry_body \<Rightarrow> (date_key \<rightharpoonup> entry) \<times> entry" where
  "upsert_spec m k b =
     (let e = apply_body b (case m k of Some e \<Rightarrow> e | None \<Rightarrow> new_entry_doc k) in (m(k \<mapsto> e), e))"

definition delete_spec :: "(date_key \<rightharpoonup> entry) \<Rightarrow> date_key \<Rightarrow> entry option \<times> (date_key \<rightharpoonup> entry)" where
  "delete_spec m k = (m k, m(k := None))"

lemma find_one_and_upsert_map:
  assumes "b_dateKey b \<in> {None, Some k}" and "find_one_and_upsert es k b = Inr (es', e)"
  shows "find_entry es' = (find_entry es)(k \<mapsto> e)"
proof
  fix k'
  show "find_entry es' k' = ((find_entry es)(k \<mapsto> e)) k'"
  proof (cases "find_entry es k")
    case None
    with assms show ?thesis
      by (auto simp: find_one_and_upsert_def Let_def set_opt_keep new_entry_doc_def
          split: option.splits if_splits)
  next
    case (Some x)
    with assms have e: "e = apply_body b x" "dateKey e = k"
      and es': "es' = replace_first (\<lambda>z. dateKey z = k) e es"
      by (auto simp: find_one_and_upsert_def Let_def set_opt_keep dest: find_entry_Some
          split: if_splits)
    show ?thesis
    proof (cases "k' = k")
      case True
      with Some e es' show ?thesis
        unfolding find_entry_def by (simp add: find_replace_first_same)
    next
      case False
      with Some e es' show ?thesis
        unfolding find_entry_def by (auto intro: find_replace_first_other)
    qed
  qed
qed

lemma find_entry_remove1:
  assumes "keys_unique es" and "find_entry es k = Some e"
  shows "find_entry (remove1 e es) = (find_entry es)(k := None)"
proof
  fix k'
  from assms have "e \<in> set es" "dateKey e = k" by (auto dest: find_entry_Some)
  with assms(1) have "remove1 e es = filter (\<lambda>y. dateKey y \<noteq> k) es"
    unfolding keys_unique_def by (auto simp: remove1_distinct_filter)
  then show "find_entry (remove1 e es) k' = ((find_entry es)(k := None)) k'"
    by (auto simp: find_entry_def find_filter_conj find_None_iff intro: arg_cong2 [where f = find])
qed

subsection \<open>Properties of the handlers\<close>

text \<open>
  C1.  A successful \<open>PUT\<close> whose body keeps the key and names an editor answers
  200 with the entry merged from the body and the prior entry, and a \<open>GET\<close> of the
  key afterwards returns that same entry.
\<close>

theorem put_then_get:
  assumes "b_dateKey b \<in> {None, Some k}" and "b_editor b = Some u" and "u \<noteq> []"
    and "k \<noteq> []" and "put_entry now k b s = (r, s')"
  shows "r = Inr (200, PEntry (merged (entry_docs s) k b)) \<and>
         get_entry k s' = Inr (200, PEntry (merged (entry_docs s) k b))"
proof -
  obtain es' where up: "find_one_and_upsert (entry_docs s) k b = Inr (es', merged (entry_docs s) k b)"
    and found: "find_entry es' k = Some (merged (entry_docs s) k b)"
    using find_one_and_upsert_keep [OF assms(1)] by blast
  from assms(2-4) have "\<exists>l. new_log now (b_editor b) Update (Some k) (find_entry (entry_docs s) k)
      (Some (merged (entry_docs s) k b)) = Inr l"
    by (simp add: new_log_def)
  with up assms(5) found show ?thesis
    by (auto simp: put_entry_Inr get_entry_def)
qed

theorem put_then_get_witness:
  "put_entry 0 ''2025-09-18'' (empty_body\<lparr>b_name := Some ''Ana'', b_editor := Some ''Bob''\<rparr>) srv_init
     = (Inr (200, PEntry \<lparr>dateKey = ''2025-09-18'', name = Some ''Ana'', address = None, phone = None,
                          editor = Some ''Bob'', imageUrls = []\<rparr>),
        snd (put_entry 0 ''2025-09-18'' (empty_body\<lparr>b_name := Some ''Ana'', b_editor := Some ''Bob''\<rparr>) srv_init))
   \<and> get_entry ''2025-09-18''
       (snd (put_entry 0 ''2025-09-18'' (empty_body\<lparr>b_name := Some ''Ana'', b_editor := Some ''Bob''\<rparr>) srv_init))
     = Inr (200, PEntry \<lparr>dateKey = ''2025-09-18'', name = Some ''Ana'', address = None, phone = None,
                         editor = Some ''Bob'', imageUrls = []\<rparr>)"
proof -
  let ?b = "empty_body\<lparr>b_name := Some ''Ana'', b_editor := Some ''Bob''\<rparr>"
  let ?p = "put_entry 0 ''2025-09-18'' ?b srv_init"
  have "fst ?p = Inr (200, PEntry (merged (entry_docs srv_init) ''2025-09-18'' ?b)) \<and>
        get_entry ''2025-09-18'' (snd ?p) = Inr (200, PEntry (merged (entry_docs srv_init) ''2025-09-18'' ?b))"
    by (rule put_then_get [of ?b "''2025-09-18''" "''Bob''" 0 srv_init "fst ?p" "snd ?p"])
       (simp_all add: empty_body_def)
  then show ?thesis
    by (simp add: merged_def srv_init_def find_entry_def apply_body_def empty_body_def
        new_entry_doc_def set_opt_def prod_eq_iff)
qed

lemma put_entry_success:
  assumes "b_dateKey b \<in> {None, Some k}" and "b_editor b = Some u" and "u \<noteq> []" and "k \<noteq> []"
  shows "\<exists>es'. find_entry es' k = Some (merged (entry_docs s) k b) \<and>
     put_entry now k b s =
       (Inr (200, PEntry (merged (entry_docs s) k b)),
        emit (CalendarEntryUpdated (merged (entry_docs s) k b))
          (append_log \<lparr>date = now, user = u, action = Update, entryDateKey = k,
                       previousData = find_entry (entry_docs s) k,
                       newData = Some (merged (entry_docs s) k b)\<rparr> (s\<lparr>entry_docs := es'\<rparr>)))"
proof -
  obtain es' where up: "find_one_and_upsert (entry_docs s) k b = Inr (es', merged (entry_docs s) k b)"
    and found: "find_entry es' k = Some (merged (entry_docs s) k b)"
    using find_one_and_upsert_keep [OF assms(1)] by blast
  have "new_log now (b_editor b) Update (Some k) (find_entry (entry_docs s) k)
      (Some (merged (entry_docs s) k b)) =
     Inr \<lparr>date = now, user = u, action = Update, entryDateKey = k,
          previousData = find_entry (entry_docs s) k, newData = Some (merged (entry_docs s) k b)\<rparr>"
    using assms(2-4) by (rule editor_ok_new_log)
  with up have "put_entry now k b s =
       (Inr (200, PEntry (merged (entry_docs s) k b)),
        emit (CalendarEntryUpdated (merged (entry_docs s) k b))
          (append_log \<lparr>date = now, user = u, action = Update, entryDateKey = k,
                       previousData = find_entry (entry_docs s) k,
                       newData = Some (merged (entry_docs s) k b)\<rparr> (s\<lparr>entry_docs := es'\<rparr>)))"
    by (rule put_entry_Inr)
  with found show ?thesis by blast
qed

lemma put_entry_success_reply:
  assumes "b_dateKey b \<in> {None, Some k}" and "b_editor b = Some u" and "u \<noteq> []" and "k \<noteq> []"
  shows "fst (put_entry now k b s) = Inr (200, PEntry (merged (entry_docs s) k b))"
  using put_entry_success [OF assms, of s now] by auto

lemma put_entry_find:
  assumes "b_dateKey b \<in> {None, Some k}" and "b_editor b = Some u" and "u \<noteq> []" and "k \<noteq> []"
  shows "find_entry (entry_docs (snd (put_entry now k b s))) k = Some (merged (entry_docs s) k b)"
  using put_entry_success [OF assms, of s now] by (auto simp: emit_def append_log_def)

text \<open>
  C10.  Writing the same body twice in a row leaves the same entry and answers the same
  way both times, and the log record of the second write has equal old and new
  snapshots (spec \<section>8, idempotence).
\<close>

theorem put_idempotent:
  assumes "b_dateKey b \<in> {None, Some k}" and "b_editor b = Some u" and "u \<noteq> []" and "k \<noteq> []"
    and "put_entry t1 k b s = (r1, s1)" and "put_entry t2 k b s1 = (r2, s2)"
  shows "r2 = r1 \<and> find_entry (entry_docs s2) k = find_entry (entry_docs s1) k \<and>
         (\<exists>l. log_docs s2 = log_docs s1 @ [l] \<and> previousData l = newData l)"
proof -
  obtain es1 where es1: "find_entry es1 k = Some (merged (entry_docs s) k b)"
    and p1: "put_entry t1 k b s = (Inr (200, PEntry (merged (entry_docs s) k b)),
        emit (CalendarEntryUpdated (merged (entry_docs s) k b))
          (append_log \<lparr>date = t1, user = u, action = Update, entryDateKey = k,
                       previousData = find_entry (entry_docs s) k,
                       newData = Some (merged (entry_docs s) k b)\<rparr> (s\<lparr>entry_docs := es1\<rparr>)))"
    using put_entry_success [OF assms(1-4)] by blast
  from p1 assms(5) have s1: "entry_docs s1 = es1" and r1: "r1 = Inr (200, PEntry (merged (entry_docs s) k b))"
    by auto
  with es1 have same: "merged (entry_docs s1) k b = merged (entry_docs s) k b"
    by (simp add: merged_again)
  obtain es2 where es2: "find_entry es2 k = Some (merged (entry_docs s1) k b)"
    and p2: "put_entry t2 k b s1 = (Inr (200, PEntry (merged (entry_docs s1) k b)),
        emit (CalendarEntryUpdated (merged (entry_docs s1) k b))
          (append_log \<lparr>date = t2, user = u, action = Update, entryDateKey = k,
                       previousData = find_entry (entry_docs s1) k,
                       newData = Some (merged (entry_docs s1) k b)\<rparr> (s1\<lparr>entry_docs := es2\<rparr>)))"
    using put_entry_success [OF assms(1-4)] by blast
  from p2 assms(6) have "entry_docs s2 = es2" and "r2 = Inr (200, PEntry (merged (entry_docs s1) k b))"
    and "log_docs s2 = log_docs s1 @ [\<lparr>date = t2, user = u, action = Update, entryDateKey = k,
                       previousData = find_entry (entry_docs s1) k,
                       newData = Some (merged (entry_docs s1) k b)\<rparr>]"
    by auto
  with r1 same es1 es2 s1 show ?thesis by auto
qed

theorem put_idempotent_witness:
  "let b = empty_body\<lparr>b_name := Some ''Ana'', b_editor := Some ''Bob''\<rparr>;
       p1 = put_entry 0 ''2025-09-18'' b srv_init;
       p2 = put_entry 5 ''2025-09-18'' b (snd p1)
   in fst p2 = fst p1 \<and> find_entry (entry_docs (snd p2)) ''2025-09-18'' = find_entry (entry_docs (snd p1)) ''2025-09-18'' \<and>
      (\<exists>l. log_docs (snd p2) = log_docs (snd p1) @ [l] \<and> previousData l = newData l)"
  unfolding Let_def
  by (rule put_idempotent [where u = "''Bob''"]) (simp_all add: empty_body_def)

lemma put_entry_Inr_effects:
  assumes "put_entry now k b s = (Inr r, s')"
  shows "\<exists>e u. r = (200, PEntry e) \<and> b_editor b = Some u \<and> e \<in> set (entry_docs s') \<and>
     log_docs s' = log_docs s @ [\<lparr>date = now, user = u, action = Update, entryDateKey = k,
                                  previousData = find_entry (entry_docs s) k, newData = Some e\<rparr>] \<and>
     emitted s' = emitted s @ [CalendarEntryUpdated e]"
proof (cases "find_one_and_upsert (entry_docs s) k b")
  case (Inl err)
  with assms show ?thesis by (simp add: put_entry_upsert_fails)
next
  case (Inr p)
  then obtain es e where up: "find_one_and_upsert (entry_docs s) k b = Inr (es, e)"
    by (cases p) auto
  then have mem: "e \<in> set es" by (rule find_one_and_upsert_member)
  show ?thesis
  proof (cases "new_log now (b_editor b) Update (Some k) (find_entry (entry_docs s) k) (Some e)")
    case (Inl err)
    with up have "put_entry now k b s = (Inl (BadRequest err), s\<lparr>entry_docs := es\<rparr>)"
      by (rule put_entry_log_fails)
    with assms show ?thesis by simp
  next
    case (Inr l)
    then obtain u where u: "b_editor b = Some u"
      and l: "l = \<lparr>date = now, user = u, action = Update, entryDateKey = k,
                   previousData = find_entry (entry_docs s) k, newData = Some e\<rparr>"
      by (auto simp: new_log_Inr)
    from up Inr have "put_entry now k b s =
        (Inr (200, PEntry e), emit (CalendarEntryUpdated e) (append_log l (s\<lparr>entry_docs := es\<rparr>)))"
      by (rule put_entry_Inr)
    with assms have "r = (200, PEntry e)" and "s' = emit (CalendarEntryUpdated e) (append_log l (s\<lparr>entry_docs := es\<rparr>))"
      by simp_all
    with u l mem show ?thesis by simp
  qed
qed

text \<open>
  C2.  A \<open>PUT\<close> that succeeds has appended exactly one change-log record and emitted
  exactly one broadcast, in that order of effects: the record pairs the document found
  before the write with the one written, and the event carries the written one.
\<close>

theorem put_entry_logs_then_emits:
  assumes "put_entry now k b s = (Inr r, s')"
  shows "\<exists>e u. r = (200, PEntry e) \<and> b_editor b = Some u \<and> e \<in> set (entry_docs s') \<and>
     log_docs s' = log_docs s @ [\<lparr>date = now, user = u, action = Update, entryDateKey = k,
                                  previousData = find_entry (entry_docs s) k, newData = Some e\<rparr>] \<and>
     emitted s' = emitted s @ [CalendarEntryUpdated e]"
  using assms by (rule put_entry_Inr_effects)

theorem put_entry_logs_then_emits_witness:
  "let b = empty_body\<lparr>b_name := Some ''Ana'', b_editor := Some ''Bob''\<rparr>;
       p = put_entry 7 ''2025-09-18'' b srv_init
   in fst p = Inr (200, PEntry (merged [] ''2025-09-18'' b)) \<and>
      (\<exists>e u. (200, PEntry (merged [] ''2025-09-18'' b)) = (200, PEntry e) \<and> b_editor b = Some u \<and>
         e \<in> set (entry_docs (snd p)) \<and>
         log_docs (snd p) = log_docs srv_init @ [\<lparr>date = 7, user = u, action = Update,
            entryDateKey = ''2025-09-18'', previousData = find_entry (entry_docs srv_init) ''2025-09-18'',
            newData = Some e\<rparr>] \<and>
         emitted (snd p) = emitted srv_init @ [CalendarEntryUpdated e])"
proof -
  let ?b = "empty_body\<lparr>b_name := Some ''Ana'', b_editor := Some ''Bob''\<rparr>"
  have r: "fst (put_entry 7 ''2025-09-18'' ?b srv_init) = Inr (200, PEntry (merged [] ''2025-09-18'' ?b))"
    using put_entry_success_reply [of ?b "''2025-09-18''" "''Bob''" 7 srv_init]
    by (simp add: empty_body_def srv_init_def prod_eq_iff)
  then have "put_entry 7 ''2025-09-18'' ?b srv_init =
      (Inr (200, PEntry (merged [] ''2025-09-18'' ?b)), snd (put_entry 7 ''2025-09-18'' ?b srv_init))"
    by (simp add: prod_eq_iff)
  from put_entry_logs_then_emits [OF this] r show ?thesis by (simp add: Let_def)
qed

text \<open>
  C6.  A \<open>PUT\<close> whose body names no editor fails with status 400 after the upsert has
  already been applied: the store holds the new entry, but no change-log record is
  written and nothing is broadcast.  Every write of the client names an editor; any
  other caller of the route can leave the store ahead of the log.
\<close>

theorem put_without_editor_partial_write:
  assumes "b_dateKey b \<in> {None, Some k}" and "b_editor b = None" and "k \<noteq> []"
    and "put_entry now k b s = (r, s')"
  shows "r = Inl (BadRequest (ValidationError [''user''])) \<and>
         find_entry (entry_docs s') k = Some (merged (entry_docs s) k b) \<and>
         log_docs s' = log_docs s \<and> emitted s' = emitted s"
proof -
  obtain es' where up: "find_one_and_upsert (entry_docs s) k b = Inr (es', merged (entry_docs s) k b)"
    and found: "find_entry es' k = Some (merged (entry_docs s) k b)"
    using find_one_and_upsert_keep [OF assms(1)] by blast
  have "new_log now (b_editor b) Update (Some k) (find_entry (entry_docs s) k)
          (Some (merged (entry_docs s) k b)) = Inl (ValidationError (required ''user'' None @ required ''entryDateKey'' (Some k)))"
    using assms(2) by (simp add: new_log_def)
  with up assms(3,4) found show ?thesis
    by (auto simp: put_entry_log_fails required_def dest: sym)
qed

theorem put_without_editor_partial_write_witness:
  "let b = empty_body\<lparr>b_name := Some ''Ana''\<rparr>; p = put_entry 0 ''2025-09-18'' b srv_init
   in fst p = Inl (BadRequest (ValidationError [''user''])) \<and>
      find_entry (entry_docs (snd p)) ''2025-09-18'' = Some (merged [] ''2025-09-18'' b) \<and>
      log_docs (snd p) = [] \<and> emitted (snd p) = []"
  using put_without_editor_partial_write
    [of "empty_body\<lparr>b_name := Some ''Ana''\<rparr>" "''2025-09-18''" 0 srv_init]
  by (simp add: Let_def empty_body_def srv_init_def prod_eq_iff)

text \<open>
  C11.  Deleting a key that holds no entry answers 404 and changes nothing: no entry, no
  change-log record, no broadcast.
\<close>

theorem delete_missing_not_found:
  assumes "find_entry (entry_docs s) k = None"
  shows "delete_entry now k s = (Inl (NotFound ''Entrada no encontrada''), s)"
  using assms by (simp add: delete_entry_def find_one_and_delete_def)

theorem delete_missing_not_found_witness:
  "delete_entry 0 ''2025-09-18'' srv_init = (Inl (NotFound ''Entrada no encontrada''), srv_init)"
  by (rule delete_missing_not_found) (simp add: srv_init_def find_entry_def)

text \<open>
  C12.  Deleting a key that holds an entry removes it, appends one \<open>delete\<close> record
  whose previous snapshot is that entry, with no new snapshot and the actor
  \<open>'unknown'\<close>, and broadcasts the key.
\<close>

theorem delete_present_logged:
  assumes "keys_unique (entry_docs s)" and "find_entry (entry_docs s) k = Some e" and "k \<noteq> []"
  shows "\<exists>s'. delete_entry now k s = (Inr (200, PMessage ''Entrada eliminada''), s') \<and>
     find_entry (entry_docs s') = (find_entry (entry_docs s))(k := None) \<and>
     log_docs s' = log_docs s @ [\<lparr>date = now, user = ''unknown'', action = Delete, entryDateKey = k,
                                  previousData = Some e, newData = None\<rparr>] \<and>
     emitted s' = emitted s @ [CalendarEntryDeleted k]"
  using assms find_entry_remove1 [OF assms(1,2)]
  by (simp add: delete_entry_def find_one_and_delete_def new_log_def)

theorem delete_present_logged_witness:
  "let e = \<lparr>dateKey = ''2025-09-18'', name = Some ''Ana'', address = None, phone = None,
            editor = Some ''Bob'', imageUrls = []\<rparr>;
       s = srv_init\<lparr>entry_docs := [e]\<rparr>
   in \<exists>s'. delete_entry 3 ''2025-09-18'' s = (Inr (200, PMessage ''Entrada eliminada''), s') \<and>
      find_entry (entry_docs s') = (find_entry (entry_docs s))(''2025-09-18'' := None) \<and>
      log_docs s' = log_docs s @ [\<lparr>date = 3, user = ''unknown'', action = Delete,
         entryDateKey = ''2025-09-18'', previousData = Some e, newData = None\<rparr>] \<and>
      emitted s' = emitted s @ [CalendarEntryDeleted ''2025-09-18'']"
  unfolding Let_def
  by (rule delete_present_logged) (simp_all add: keys_unique_def find_entry_def)

subsection \<open>Refinement of the abstract store\<close>

text \<open>
  C3.  A successful \<open>PUT\<close> whose body keeps the key implements the abstract upsert:
  the key-to-entry map of the collection afterwards, and the entry returned, are those
  of \<open>upsert_spec\<close> applied to the map before.
\<close>

theorem put_refines_upsert_spec:
  assumes "b_dateKey b \<in> {None, Some k}" and "put_entry now k b s = (Inr (st, PEntry e), s')"
  shows "(find_entry (entry_docs s'), e) = upsert_spec (find_entry (entry_docs s)) k b"
proof -
  obtain es' where up: "find_one_and_upsert (entry_docs s) k b = Inr (es', merged (entry_docs s) k b)"
    using find_one_and_upsert_keep [OF assms(1)] by blast
  have docs: "entry_docs s' = es' \<and> e = merged (entry_docs s) k b"
    using assms(2) up
    by (auto simp: put_entry_def Let_def split: sum.splits)
  with up find_one_and_upsert_map [OF assms(1) up] show ?thesis
    by (simp add: upsert_spec_def merged_def Let_def)
qed

theorem put_refines_upsert_spec_witness:
  "let b = empty_body\<lparr>b_phone := Some ''555-1234'', b_editor := Some ''Bob''\<rparr>;
       e0 = \<lparr>dateKey = ''2025-09-18'', name = Some ''Ana'', address = None, phone = None,
             editor = Some ''Bob'', imageUrls = []\<rparr>;
       s = srv_init\<lparr>entry_docs := [e0]\<rparr>;
       e1 = e0\<lparr>phone := Some ''555-1234''\<rparr>
   in put_entry 1 ''2025-09-18'' b s = (Inr (200, PEntry e1), snd (put_entry 1 ''2025-09-18'' b s)) \<and>
      (find_entry (entry_docs (snd (put_entry 1 ''2025-09-18'' b s))), e1) =
        upsert_spec (find_entry (entry_docs s)) ''2025-09-18'' b"
proof -
  let ?b = "empty_body\<lparr>b_phone := Some ''555-1234'', b_editor := Some ''Bob''\<rparr>"
  let ?e0 = "\<lparr>dateKey = ''2025-09-18'', name = Some ''Ana'', address = None, phone = None,
             editor = Some ''Bob'', imageUrls = []\<rparr>"
  let ?s = "srv_init\<lparr>entry_docs := [?e0]\<rparr>"
  have p: "put_entry 1 ''2025-09-18'' ?b ?s =
     (Inr (200, PEntry (?e0\<lparr>phone := Some ''555-1234''\<rparr>)), snd (put_entry 1 ''2025-09-18'' ?b ?s))"
    by (simp add: put_entry_def find_one_and_upsert_def find_entry_def apply_body_def empty_body_def
        set_opt_def new_log_def Let_def)
  have r: "(find_entry (entry_docs (snd (put_entry 1 ''2025-09-18'' ?b ?s))),
             ?e0\<lparr>phone := Some ''555-1234''\<rparr>) =
           upsert_spec (find_entry (entry_docs ?s)) ''2025-09-18'' ?b"
    by (rule put_refines_upsert_spec [OF _ p]) (simp add: empty_body_def)
  show ?thesis unfolding Let_def using p r by (rule conjI)
qed

text \<open>
  C13.  \<open>POST\<close> of a key that already holds an entry is refused by the unique index
  with status 400, before anything is written.
\<close>

theorem post_duplicate_rejected:
  assumes "b_dateKey b = Some k" and "k \<noteq> []" and "find_entry (entry_docs s) k \<noteq> None"
  shows "post_entry now b s = (Inl (BadRequest (DuplicateKey ''dateKey'')), s)"
  using assms by (simp add: post_entry_def entry_of_body_def insert_entry_def set_opt_def)

theorem post_duplicate_rejected_witness:
  "let e0 = \<lparr>dateKey = ''2025-09-18'', name = Some ''Ana'', address = None, phone = None,
             editor = Some ''Bob'', imageUrls = []\<rparr>
   in post_entry 2 (empty_body\<lparr>b_dateKey := Some ''2025-09-18'', b_editor := Some ''Eve''\<rparr>)
        (srv_init\<lparr>entry_docs := [e0]\<rparr>) =
      (Inl (BadRequest (DuplicateKey ''dateKey'')), srv_init\<lparr>entry_docs := [e0]\<rparr>)"
  unfolding Let_def
  by (rule post_duplicate_rejected [where k = "''2025-09-18''"])
     (simp_all add: empty_body_def find_entry_def)

subsection \<open>The store invariant\<close>

text \<open>
  The unique index holds on the entries and every stored change-log record is
  well formed.
\<close>

definition store_inv :: "srv \<Rightarrow> bool" where
  "store_inv s \<longleftrightarrow> keys_unique (entry_docs s) \<and> (\<forall>l \<in> set (log_docs s). log_wf l)"

lemma store_inv_append_emit:
  "store_inv (s\<lparr>entry_docs := es\<rparr>) \<Longrightarrow> log_wf l \<Longrightarrow>
   store_inv (emit ev (append_log l (s\<lparr>entry_docs := es\<rparr>)))"
  by (simp add: store_inv_def)

lemma put_entry_store_inv:
  assumes "store_inv s" and "put_entry now k b s = (r, s')"
  shows "store_inv s'"
proof (cases "find_one_and_upsert (entry_docs s) k b")
  case (Inl err)
  with assms show ?thesis by (simp add: put_entry_upsert_fails)
next
  case (Inr p)
  then obtain es e where up: "find_one_and_upsert (entry_docs s) k b = Inr (es, e)"
    by (cases p) auto
  with assms(1) have inv1: "store_inv (s\<lparr>entry_docs := es\<rparr>)"
    by (auto simp: store_inv_def intro: find_one_and_upsert_unique)
  show ?thesis
  proof (cases "new_log now (b_editor b) Update (Some k) (find_entry (entry_docs s) k) (Some e)")
    case (Inl err)
    with up assms(2) inv1 show ?thesis by (simp add: put_entry_log_fails)
  next
    case (Inr l)
    then have "log_wf l" by (rule new_log_update_wf)
    with up Inr assms(2) inv1 show ?thesis by (auto simp: put_entry_Inr store_inv_append_emit)
  qed
qed

lemma post_entry_store_inv:
  assumes "store_inv s" and "post_entry now b s = (r, s')"
  shows "store_inv s'"
  using assms
  by (auto simp: post_entry_def store_inv_def Let_def insert_entry_unique
      split: sum.splits dest: new_log_wf_rules)

lemma delete_entry_store_inv:
  assumes "store_inv s" and "delete_entry now k s = (r, s')"
  shows "store_inv s'"
proof (cases "find_one_and_delete (entry_docs s) k")
  case (Pair found es)
  show ?thesis
  proof (cases found)
    case None
    with Pair assms show ?thesis by (simp add: delete_entry_def)
  next
    case (Some e)
    from assms(1) Pair have inv1: "store_inv (s\<lparr>entry_docs := es\<rparr>)"
      by (auto simp: store_inv_def intro: find_one_and_delete_unique)
    show ?thesis
    proof (cases "new_log now (Some ''unknown'') Delete (Some k) (Some e) None")
      case (Inl err)
      with Pair Some assms(2) inv1 show ?thesis by (simp add: delete_entry_def)
    next
      case (Inr l)
      then have "log_wf l" by (rule new_log_delete_wf)
      with Pair Some Inr assms(2) inv1 show ?thesis
        by (auto simp: delete_entry_def store_inv_append_emit)
    qed
  qed
qed

end
