(* ===== verification/Js_Runtime.thy ===== *)
theory Js_Runtime
  imports Prelude
begin

text \<open>
  The JavaScript built-ins the program's date and key logic calls, modelled from their
  ECMAScript definitions: \<open>String(n)\<close> of an integral number, \<open>padStart\<close>, and the
  day arithmetic of \<open>Date\<close> (\<open>MakeDay\<close>, \<open>DayFromYear\<close>, \<open>YearFromTime\<close>,
  \<open>MonthFromTime\<close>, \<open>DateFromTime\<close>, local time as UTC plus a fixed offset).
\<close>

subsection \<open>Decimal strings\<close>

definition digit_char :: "nat \<Rightarrow> char" where
  "digit_char d = ''0123456789'' ! d"

lemma less_10_cases: "(d::nat) < 10 \<longleftrightarrow> d \<in> {0, 1, 2, 3, 4, 5, 6, 7, 8, 9}"
  by auto

text \<open>\<open>String(n)\<close> for a non-negative integral number: its shortest decimal form.\<close>

fun nat_to_string :: "nat \<Rightarrow> string" where
  "nat_to_string n =
     (if n < 10 then [digit_char n] else nat_to_string (n div 10) @ [digit_char (n mod 10)])"

declare nat_to_string.simps [simp del]

definition int_to_string :: "int \<Rightarrow> string" where
  "int_to_string i = (if i < 0 then CHR ''-'' # nat_to_string (nat (- i)) else nat_to_string (nat i))"

text \<open>\<open>s.padStart(n, c)\<close> with a one-character filler.\<close>

definition pad_start :: "nat \<Rightarrow> char \<Rightarrow> string \<Rightarrow> string" where
  "pad_start n c s = replicate (n - length s) c @ s"

text \<open>The last \<open>w\<close> decimal digits of \<open>n\<close>, zero-padded: the reference for the above.\<close>

fun fixed_digits :: "nat \<Rightarrow> nat \<Rightarrow> string" where
  "fixed_digits 0 n = []"
| "fixed_digits (Suc w) n = fixed_digits w (n div 10) @ [digit_char (n mod 10)]"

lemma length_fixed_digits [simp]: "length (fixed_digits w n) = w"
  by (induction w arbitrary: n) auto

lemma of_char_digit [simp]: "d < 10 \<Longrightarrow> of_char (digit_char d) = 48 + d"
  unfolding less_10_cases by (auto simp: digit_char_def)

lemma digit_char_less_iff:
  "a < 10 \<Longrightarrow> b < 10 \<Longrightarrow> digit_char a < digit_char b \<longleftrightarrow> a < b"
  by (simp add: less_char_def)

lemma digit_char_eq_iff:
  "a < 10 \<Longrightarrow> b < 10 \<Longrightarrow> digit_char a = digit_char b \<longleftrightarrow> a = b"
  by (metis of_char_digit add_left_cancel)

lemma digit_char_0: "digit_char 0 = CHR ''0''"
  by (simp add: digit_char_def)

lemma digit_char_le_iff:
  "a < 10 \<Longrightarrow> b < 10 \<Longrightarrow> digit_char a \<le> digit_char b \<longleftrightarrow> a \<le> b"
  by (simp add: less_eq_char_def)

lemma nat_to_string_fixed:
  "n < 10 ^ Suc w \<Longrightarrow> (w = 0 \<or> 10 ^ w \<le> n) \<Longrightarrow> nat_to_string n = fixed_digits (Suc w) n"
proof (induction w arbitrary: n)
  case 0
  then show ?case by (simp add: nat_to_string.simps [of n])
next
  case (Suc w)
  have "(10::nat) ^ Suc w div 10 \<le> n div 10"
    using Suc.prems(2) by (intro div_le_mono) simp
  then have lo: "10 ^ w \<le> n div 10" by simp
  have hi: "n div 10 < 10 ^ Suc w"
    using Suc.prems(1) by (simp add: less_mult_imp_div_less)
  have "(10::nat) \<le> 10 ^ Suc w" by simp
  with Suc.prems(2) have big: "\<not> n < 10" by linarith
  from Suc.IH [OF hi] lo have "nat_to_string (n div 10) = fixed_digits (Suc w) (n div 10)"
    by blast
  with big show ?case by (simp add: nat_to_string.simps [of n])
qed

lemma div_mod_10_le_iff:
  "(n :: nat) \<le> m \<longleftrightarrow>
   n div 10 < m div 10 \<or> n div 10 = m div 10 \<and> (n mod 10 < m mod 10 \<or> n mod 10 = m mod 10)"
proof -
  have n: "n = 10 * (n div 10) + n mod 10" and m: "m = 10 * (m div 10) + m mod 10" by simp_all
  have "n mod 10 < 10" "m mod 10 < 10" by simp_all
  then show ?thesis by (subst n, subst m) linarith
qed

lemma fixed_digits_le_iff:
  "n < 10 ^ w \<Longrightarrow> m < 10 ^ w \<Longrightarrow> fixed_digits w n \<le> fixed_digits w m \<longleftrightarrow> n \<le> m"
proof (induction w arbitrary: n m)
  case 0
  then show ?case by simp
next
  case (Suc w)
  have b: "n div 10 < 10 ^ w" "m div 10 < 10 ^ w"
    using Suc.prems by (simp_all add: less_mult_imp_div_less mult.commute)
  have le: "fixed_digits w (n div 10) \<le> fixed_digits w (m div 10) \<longleftrightarrow> n div 10 \<le> m div 10"
    and ge: "fixed_digits w (m div 10) \<le> fixed_digits w (n div 10) \<longleftrightarrow> m div 10 \<le> n div 10"
    using Suc.IH b by blast+
  then have lt: "fixed_digits w (n div 10) < fixed_digits w (m div 10) \<longleftrightarrow> n div 10 < m div 10"
    and eq: "fixed_digits w (n div 10) = fixed_digits w (m div 10) \<longleftrightarrow> n div 10 = m div 10"
    by (auto simp: less_le_not_le)
  show ?case
    by (simp add: less_eq_append_same_length lt eq digit_char_less_iff digit_char_eq_iff
        div_mod_10_le_iff [of n m])
qed

lemma fixed_digits_less_iff:
  "n < 10 ^ w \<Longrightarrow> m < 10 ^ w \<Longrightarrow> fixed_digits w n < fixed_digits w m \<longleftrightarrow> n < m"
  using fixed_digits_le_iff [of n w m] fixed_digits_le_iff [of m w n]
  by (auto simp: less_le_not_le)

lemma fixed_digits_eq_iff:
  "n < 10 ^ w \<Longrightarrow> m < 10 ^ w \<Longrightarrow> fixed_digits w n = fixed_digits w m \<longleftrightarrow> n = m"
  using fixed_digits_le_iff [of n w m] fixed_digits_le_iff [of m w n]
  by (auto simp: order_antisym)

lemma pad2_nat_to_string:
  "n < 100 \<Longrightarrow> pad_start 2 (CHR ''0'') (nat_to_string n) = fixed_digits 2 n"
proof (cases "n < 10")
  case True
  then show ?thesis
    by (simp add: pad_start_def nat_to_string.simps [of n] numeral_2_eq_2 digit_char_0)
next
  case False
  moreover assume "n < 100"
  ultimately have "nat_to_string n = fixed_digits 2 n"
    using nat_to_string_fixed [of n 1] by (simp add: numeral_2_eq_2)
  then show ?thesis by (simp add: pad_start_def)
qed

subsection \<open>Calendar arithmetic of \<open>Date\<close>\<close>

text \<open>
  Time values are milliseconds since the epoch; days are whole days since the epoch.
  ECMAScript defines \<open>DayFromYear\<close> by a closed formula with floor divisions, which
  are HOL's \<open>div\<close> on \<open>int\<close>.
\<close>

definition ms_per_day :: int where
  "ms_per_day = 86400000"

lemma mod_shift_zero:
  fixes y k c :: int
  assumes "c dvd k"
  shows "(y - k) mod c = 0 \<longleftrightarrow> y mod c = 0"
proof -
  have "(y - k) mod c = (y mod c - k mod c) mod c" by (rule mod_diff_eq [symmetric])
  also have "k mod c = 0" using assms by simp
  finally show ?thesis by simp
qed
lemma div_plus1:
  fixes a c :: int
  assumes "1 < c"
  shows "(a + 1) div c = a div c + (if (a + 1) mod c = 0 then 1 else 0)"
proof -
  have r: "0 \<le> a mod c" "a mod c < c" using assms by simp_all
  have "(a + 1) div c = a div c + 1 div c + (a mod c + 1 mod c) div c"
    by (rule div_add1_eq)
  with assms have d: "(a + 1) div c = a div c + (a mod c + 1) div c"
    by simp
  have m: "(a + 1) mod c = (a mod c + 1) mod c" by (simp add: mod_add_left_eq)
  show ?thesis
  proof (cases "a mod c + 1 = c")
    case True
    with d m assms show ?thesis by simp
  next
    case False
    with r have "a mod c + 1 < c" by simp
    with d m r show ?thesis by simp
  qed
qed
lemma floor_step:
  fixes y k c :: int
  assumes "1 < c" and "c dvd (k - 1)"
  shows "(y + 1 - k) div c = (y - k) div c + (if y mod c = 0 then 1 else 0)"
proof -
  have e: "y + 1 - k = (y - k) + 1" by simp
  have q: "y - k + 1 = y - (k - 1)" by simp
  have "(y - k + 1) div c = (y - k) div c + (if (y - k + 1) mod c = 0 then 1 else 0)"
    by (rule div_plus1 [OF assms(1)])
  then show ?thesis
    unfolding e q using mod_shift_zero [OF assms(2), of y] by simp
qed

definition day_from_year :: "int \<Rightarrow> int" where
  "day_from_year y = 365 * (y - 1970) + (y - 1969) div 4 - (y - 1901) div 100 + (y - 1601) div 400"

definition in_leap_year :: "int \<Rightarrow> bool" where
  "in_leap_year y \<longleftrightarrow> y mod 4 = 0 \<and> (y mod 100 \<noteq> 0 \<or> y mod 400 = 0)"

definition days_in_year :: "int \<Rightarrow> int" where
  "days_in_year y = (if in_leap_year y then 366 else 365)"

lemma day_from_year_next: "day_from_year (y + 1) = day_from_year y + days_in_year y"
proof -
  have a: "(y + 1 - 1969) div 4 = (y - 1969) div 4 + (if y mod 4 = 0 then 1 else 0)"
    by (rule floor_step) simp_all
  have b: "(y + 1 - 1901) div 100 = (y - 1901) div 100 + (if y mod 100 = 0 then 1 else 0)"
    by (rule floor_step) simp_all
  have c: "(y + 1 - 1601) div 400 = (y - 1601) div 400 + (if y mod 400 = 0 then 1 else 0)"
    by (rule floor_step) simp_all
  have h1: "y mod 400 = 0 \<Longrightarrow> y mod 100 = 0"
    using mod_mod_cancel [of 100 400 y] by simp
  have h2: "y mod 100 = 0 \<Longrightarrow> y mod 4 = 0"
    using mod_mod_cancel [of 4 100 y] by simp
  define P Q R where "P = (y - 1969) div 4" and "Q = (y - 1901) div 100" and "R = (y - 1601) div 400"
  have next_eq: "day_from_year (y + 1) = 365 * (y - 1970) + 365 + (P + (if y mod 4 = 0 then 1 else 0))
      - (Q + (if y mod 100 = 0 then 1 else 0)) + (R + (if y mod 400 = 0 then 1 else 0))"
    unfolding day_from_year_def a b c P_def Q_def R_def by (simp add: algebra_simps)
  have this_eq: "day_from_year y = 365 * (y - 1970) + P - Q + R"
    unfolding day_from_year_def P_def Q_def R_def by simp
  show ?thesis
    unfolding next_eq this_eq days_in_year_def in_leap_year_def
    using h1 h2 by (cases "y mod 4 = 0"; cases "y mod 100 = 0"; cases "y mod 400 = 0") simp_all
qed
lemma days_in_year_bounds: "365 \<le> days_in_year y" "days_in_year y \<le> 366"
  by (simp_all add: days_in_year_def)

lemma days_in_year_pos [simp]: "0 < days_in_year y"
  by (simp add: days_in_year_def)

lemma day_from_year_prev: "day_from_year (y - 1) = day_from_year y - days_in_year (y - 1)"
  using day_from_year_next [of "y - 1"] by simp

lemma day_from_year_mono_step: "a < b \<Longrightarrow> day_from_year (a + 1) \<le> day_from_year b"
proof (induction b rule: int_gr_induct)
  case base
  then show ?case by simp
next
  case (step b)
  then show ?case using day_from_year_next [of b] days_in_year_bounds(1) [of b] by simp
qed

lemma day_from_year_strict: "a < b \<Longrightarrow> day_from_year a < day_from_year b"
  using day_from_year_mono_step [of a b] day_from_year_next [of a] days_in_year_bounds(1) [of a]
  by simp

lemma year_interval_unique:
  assumes "day_from_year a \<le> n" "n < day_from_year (a + 1)"
    and "day_from_year b \<le> n" "n < day_from_year (b + 1)"
  shows "a = b"
proof (rule ccontr)
  assume "a \<noteq> b"
  then consider "a < b" | "b < a" by linarith
  then show False
  proof cases
    case 1
    then have "day_from_year (a + 1) \<le> day_from_year b" by (rule day_from_year_mono_step)
    with assms show False by simp
  next
    case 2
    then have "day_from_year (b + 1) \<le> day_from_year a" by (rule day_from_year_mono_step)
    with assms show False by simp
  qed
qed

text \<open>
  \<open>YearFromTime\<close>: the largest year whose first day is not after the given day.  The
  search walks up from 1970 for days at or after the epoch and down from 1969 for days
  before it.
\<close>

function year_up :: "int \<Rightarrow> int \<Rightarrow> int" where
  "year_up n y = (if day_from_year (y + 1) \<le> n then year_up n (y + 1) else y)"
  by pat_completeness auto
termination
  by (relation "measure (\<lambda>(n, y). nat (n - day_from_year y))")
     (auto simp: day_from_year_next dest: add_strict_left_mono [OF days_in_year_pos, THEN order.strict_trans2])

function year_down :: "int \<Rightarrow> int \<Rightarrow> int" where
  "year_down n y = (if n < day_from_year y then year_down n (y - 1) else y)"
  by pat_completeness auto
termination
  by (relation "measure (\<lambda>(n, y). nat (day_from_year y - n))")
     (auto simp: day_from_year_prev)

declare year_up.simps [simp del] year_down.simps [simp del]

definition year_from_day :: "int \<Rightarrow> int" where
  "year_from_day n = (if n < 0 then year_down n 1969 else year_up n 1970)"

lemma year_up_bounds:
  "day_from_year y \<le> n \<Longrightarrow>
   day_from_year (year_up n y) \<le> n \<and> n < day_from_year (year_up n y + 1)"
proof (induction n y rule: year_up.induct)
  case (1 n y)
  show ?case
  proof (cases "day_from_year (y + 1) \<le> n")
    case True
    with "1.IH" show ?thesis by (simp add: year_up.simps [of n y])
  next
    case False
    with "1.prems" show ?thesis by (simp add: year_up.simps [of n y])
  qed
qed

lemma year_down_bounds:
  "n < day_from_year (y + 1) \<Longrightarrow>
   day_from_year (year_down n y) \<le> n \<and> n < day_from_year (year_down n y + 1)"
proof (induction n y rule: year_down.induct)
  case (1 n y)
  show ?case
  proof (cases "n < day_from_year y")
    case True
    with "1.IH" show ?thesis by (simp add: year_down.simps [of n y])
  next
    case False
    with "1.prems" show ?thesis by (simp add: year_down.simps [of n y])
  qed
qed

lemma day_from_year_1970 [simp]: "day_from_year 1970 = 0"
  by (simp add: day_from_year_def)

lemma year_from_day_bounds:
  "day_from_year (year_from_day n) \<le> n \<and> n < day_from_year (year_from_day n + 1)"
  using year_up_bounds [of 1970 n] year_down_bounds [of n 1969]
  by (simp add: year_from_day_def)

lemma year_from_day_eq:
  "day_from_year y \<le> n \<Longrightarrow> n < day_from_year (y + 1) \<Longrightarrow> year_from_day n = y"
  using year_from_day_bounds [of n] year_interval_unique by blast

text \<open>
  The first day of each month within a year (\<open>MonthFromTime\<close> of ECMAScript lists the
  same thresholds); index 12 is the length of the year.
\<close>

definition month_start :: "bool \<Rightarrow> nat \<Rightarrow> int" where
  "month_start leap m =
     [0, 31, 59, 90, 120, 151, 181, 212, 243, 273, 304, 334, 365] ! m + (if leap \<and> 2 \<le> m then 1 else 0)"

definition month_from_day_in_year :: "bool \<Rightarrow> int \<Rightarrow> int" where
  "month_from_day_in_year leap k =
     int (length (filter (\<lambda>m. month_start leap m \<le> k) [1, 2, 3, 4, 5, 6, 7, 8, 9, 10, 11]))"

definition date_from_day_in_year :: "bool \<Rightarrow> int \<Rightarrow> int" where
  "date_from_day_in_year leap k = k - month_start leap (nat (month_from_day_in_year leap k)) + 1"

definition days_in_month :: "int \<Rightarrow> nat \<Rightarrow> int" where
  "days_in_month y m = month_start (in_leap_year y) (Suc m) - month_start (in_leap_year y) m"

text \<open>\<open>MakeDay(year, month, date)\<close> for integral arguments: the month may lie outside
  \<open>0..11\<close> and the date outside the month; both carry over.\<close>

definition make_day :: "int \<Rightarrow> int \<Rightarrow> int \<Rightarrow> int" where
  "make_day y m d =
     (let ym = y + m div 12; mn = nat (m mod 12)
      in day_from_year ym + month_start (in_leap_year ym) mn + d - 1)"

lemma less_12_cases:
  "(m::nat) < 12 \<longleftrightarrow> m \<in> {0, 1, 2, 3, 4, 5, 6, 7, 8, 9, 10, 11}"
  by (simp add: eval_nat_numeral less_Suc_eq)

lemma month_start_Suc_less: "m < 12 \<Longrightarrow> month_start leap m < month_start leap (Suc m)"
  unfolding less_12_cases by (auto simp: month_start_def)

lemma month_start_12 [simp]: "month_start (in_leap_year y) 12 = days_in_year y"
  by (simp add: month_start_def days_in_year_def)

lemma month_start_0 [simp]: "month_start leap 0 = 0"
  by (simp add: month_start_def)

lemma month_start_strict:
  "m1 < m2 \<Longrightarrow> m2 \<le> 12 \<Longrightarrow> month_start leap m1 < month_start leap m2"
proof (induction m2)
  case 0
  then show ?case by simp
next
  case (Suc k)
  then have "month_start leap k < month_start leap (Suc k)" by (simp add: month_start_Suc_less)
  with Suc show ?case by (cases "m1 = k") auto
qed

lemma month_from_day_in_year_eq:
  assumes "m < 12" and "month_start leap m \<le> k" and "k < month_start leap (Suc m)"
  shows "month_from_day_in_year leap k = int m"
proof -
  have "\<forall>j \<in> {1..11}. month_start leap j \<le> k \<longleftrightarrow> j \<le> m"
  proof
    fix j :: nat
    assume j: "j \<in> {1..11}"
    show "month_start leap j \<le> k \<longleftrightarrow> j \<le> m"
    proof
      assume "month_start leap j \<le> k"
      with assms(3) have "month_start leap j < month_start leap (Suc m)" by simp
      with j assms(1) show "j \<le> m"
        using month_start_strict [of "Suc m" j leap] by (cases "Suc m < j"; cases "j = Suc m") auto
    next
      assume "j \<le> m"
      with assms(1,2) show "month_start leap j \<le> k"
        using month_start_strict [of j m leap] by (cases "j = m") auto
    qed
  qed
  then have "filter (\<lambda>j. month_start leap j \<le> k) [1, 2, 3, 4, 5, 6, 7, 8, 9, 10, 11] =
             filter (\<lambda>j. j \<le> m) [1, 2, 3, 4, 5, 6, 7, 8, 9, 10, 11]"
    by (intro filter_cong) auto
  moreover have "length (filter (\<lambda>j. j \<le> m) [1, 2, 3, 4, 5, 6, 7, 8, 9, 10, 11::nat]) = m"
    using assms(1) unfolding less_12_cases by auto
  ultimately show ?thesis by (simp add: month_from_day_in_year_def)
qed

lemma month_start_nonneg: "m \<le> 12 \<Longrightarrow> 0 \<le> month_start leap m"
  using month_start_strict [of 0 m leap] by (cases m) auto

lemma days_in_month_pos: "m < 12 \<Longrightarrow> 0 < days_in_month y m"
  using month_start_Suc_less [of m] by (simp add: days_in_month_def)

text \<open>A day of a valid date lies in its year, month and date.\<close>

lemma make_day_fields:
  assumes "m < 12" and "1 \<le> d" and "d \<le> days_in_month y m"
  shows "year_from_day (make_day y (int m) d) = y"
    and "month_from_day_in_year (in_leap_year y) (make_day y (int m) d - day_from_year y) = int m"
    and "date_from_day_in_year (in_leap_year y) (make_day y (int m) d - day_from_year y) = d"
proof -
  let ?L = "in_leap_year y"
  define k where "k = month_start ?L m + d - 1"
  have md: "make_day y (int m) d = day_from_year y + k"
    using assms(1) by (simp add: make_day_def k_def)
  have lo: "month_start ?L m \<le> k" using assms(2) by (simp add: k_def)
  have hi: "k < month_start ?L (Suc m)"
    using assms(3) by (simp add: days_in_month_def k_def)
  have "month_start ?L (Suc m) \<le> month_start ?L 12"
    using month_start_strict [of "Suc m" 12 ?L] assms(1) by (cases "Suc m = 12") auto
  with hi have in_year: "k < days_in_year y" by simp
  have k0: "0 \<le> k" using month_start_nonneg [of m ?L] assms(1) lo by simp
  show "year_from_day (make_day y (int m) d) = y"
    by (rule year_from_day_eq) (simp_all add: md day_from_year_next k0 in_year)
  have mon: "month_from_day_in_year ?L k = int m"
    by (rule month_from_day_in_year_eq [OF assms(1) lo hi])
  then show "month_from_day_in_year ?L (make_day y (int m) d - day_from_year y) = int m"
    by (simp add: md)
  from mon show "date_from_day_in_year ?L (make_day y (int m) d - day_from_year y) = d"
    by (simp add: md date_from_day_in_year_def k_def)
qed

text \<open>Date 0 of a month is the last day of the month before.\<close>

lemma make_day_zero:
  assumes "1 \<le> m" and "m \<le> 12"
  shows "make_day y (int m) 0 = make_day y (int (m - 1)) (days_in_month y (m - 1))"
proof (cases "m = 12")
  case True
  then show ?thesis
    by (simp add: make_day_def days_in_month_def day_from_year_next)
next
  case False
  with assms have "int m div 12 = 0" "int m mod 12 = int m" "(int m - 1) div 12 = 0"
    "(int m - 1) mod 12 = int m - 1" "nat (int m - 1) = m - 1" by simp_all
  moreover have "Suc (m - 1) = m" using assms(1) by simp
  ultimately show ?thesis
    by (simp add: make_day_def days_in_month_def)
qed


subsection \<open>Time values and local time\<close>

text \<open>
  The program runs in some time zone; local time is UTC plus a fixed offset \<open>tz\<close> in
  milliseconds (daylight-saving changes are not modelled).  \<open>new Date(y, m, d)\<close> reads
  its arguments as local time, and a year argument from 0 to 99 means 1900 to 1999
  (\<open>MakeFullYear\<close>).
\<close>

definition make_full_year :: "int \<Rightarrow> int" where
  "make_full_year y = (if 0 \<le> y \<and> y \<le> 99 then 1900 + y else y)"

definition new_date_local :: "int \<Rightarrow> int \<Rightarrow> int \<Rightarrow> int \<Rightarrow> millis" where
  "new_date_local tz y m d = make_day (make_full_year y) m d * ms_per_day - tz"

definition local_day :: "int \<Rightarrow> millis \<Rightarrow> int" where
  "local_day tz t = (t + tz) div ms_per_day"

definition get_full_year :: "int \<Rightarrow> millis \<Rightarrow> int" where
  "get_full_year tz t = year_from_day (local_day tz t)"

definition get_month :: "int \<Rightarrow> millis \<Rightarrow> int" where
  "get_month tz t =
     (let n = local_day tz t; y = year_from_day n
      in month_from_day_in_year (in_leap_year y) (n - day_from_year y))"

definition get_date :: "int \<Rightarrow> millis \<Rightarrow> int" where
  "get_date tz t =
     (let n = local_day tz t; y = year_from_day n
      in date_from_day_in_year (in_leap_year y) (n - day_from_year y))"

text \<open>\<open>getDay()\<close>: \<open>WeekDay(t) = (Day(t) + 4) mod 7\<close> on local time, 0 for Sunday.\<close>

definition get_day :: "int \<Rightarrow> millis \<Rightarrow> int" where
  "get_day tz t = (local_day tz t + 4) mod 7"

declare get_day_def [js_simps]
declare ms_per_day_def [js_simps] make_full_year_def [js_simps] new_date_local_def [js_simps]
  local_day_def [js_simps] get_full_year_def [js_simps] get_month_def [js_simps] get_date_def [js_simps]

lemma local_day_new_date:
  "local_day tz (new_date_local tz y m d) = make_day (make_full_year y) m d"
  by (simp add: local_day_def new_date_local_def ms_per_day_def)

text \<open>
  The fields of a local date read back from the \<open>Date\<close> built from them, for a valid
  date of a year outside 0..99.
\<close>

lemma new_date_local_fields:
  assumes "\<not> (0 \<le> y \<and> y \<le> 99)" and "m < 12" and "1 \<le> d" and "d \<le> days_in_month y m"
  shows "get_full_year tz (new_date_local tz y (int m) d) = y"
    and "get_month tz (new_date_local tz y (int m) d) = int m"
    and "get_date tz (new_date_local tz y (int m) d) = d"
proof -
  have "make_full_year y = y" using assms(1) by (simp add: make_full_year_def)
  then show "get_full_year tz (new_date_local tz y (int m) d) = y"
    and "get_month tz (new_date_local tz y (int m) d) = int m"
    and "get_date tz (new_date_local tz y (int m) d) = d"
    using make_day_fields [OF assms(2-4)]
    by (simp_all add: get_full_year_def get_month_def get_date_def local_day_new_date Let_def)
qed

subsection \<open>Date-only strings\<close>

text \<open>
  \<open>new Date("YYYY-MM-DD")\<close>: the date-only form of the ECMAScript date-time string
  format, read as UTC midnight; a string that is not in the format or names no valid
  date gives an invalid date (\<open>None\<close>).
\<close>

definition digit_value :: "char \<Rightarrow> nat option" where
  "digit_value c = (let n = (of_char c :: nat) in if 48 \<le> n \<and> n < 58 then Some (n - 48) else None)"

fun digits_value :: "nat \<Rightarrow> string \<Rightarrow> nat option" where
  "digits_value acc [] = Some acc"
| "digits_value acc (c # cs) =
     (case digit_value c of None \<Rightarrow> None | Some v \<Rightarrow> digits_value (10 * acc + v) cs)"

definition parse_date_only :: "string \<Rightarrow> (int \<times> int \<times> int) option" where
  "parse_date_only s =
     (if length s = 10 \<and> s ! 4 = CHR ''-'' \<and> s ! 7 = CHR ''-''
      then (case (digits_value 0 (take 4 s), digits_value 0 (take 2 (drop 5 s)), digits_value 0 (drop 8 s)) of
              (Some y, Some m, Some d) \<Rightarrow>
                if 1 \<le> m \<and> m \<le> 12 \<and> 1 \<le> d \<and> int d \<le> days_in_month (int y) (m - 1)
                then Some (int y, int m, int d) else None
            | _ \<Rightarrow> None)
      else None)"

definition new_date_string :: "string \<Rightarrow> millis option" where
  "new_date_string s =
     map_option (\<lambda>(y, m, d). make_day y (m - 1) d * ms_per_day) (parse_date_only s)"

lemma digit_value_digit_char [simp]: "d < 10 \<Longrightarrow> digit_value (digit_char d) = Some d"
  by (simp add: digit_value_def)

lemma digits_value_append:
  "digits_value acc (xs @ ys) = (case digits_value acc xs of None \<Rightarrow> None | Some a \<Rightarrow> digits_value a ys)"
  by (induction acc xs rule: digits_value.induct) (auto split: option.splits)

lemma digits_value_fixed:
  "n < 10 ^ w \<Longrightarrow> digits_value acc (fixed_digits w n) = Some (acc * 10 ^ w + n)"
proof (induction w arbitrary: n)
  case 0
  then show ?case by simp
next
  case (Suc w)
  have "n div 10 < 10 ^ w"
    using Suc.prems by (simp add: less_mult_imp_div_less mult.commute)
  then have "digits_value acc (fixed_digits w (n div 10)) = Some (acc * 10 ^ w + n div 10)"
    by (rule Suc.IH)
  then show ?case
    by (simp add: digits_value_append algebra_simps)
qed


subsection \<open>Decimal strings are injective\<close>

text \<open>\<open>String(n)\<close> of a non-negative number is made of digits only, and different
  numbers give different strings.\<close>

lemma nat_to_string_digits: "set (nat_to_string n) \<subseteq> digit_char ` {..<10}"
proof (induction n rule: nat_to_string.induct)
  case (1 n)
  then show ?case by (subst nat_to_string.simps) auto
qed

lemma nat_to_string_not_Nil [simp]: "nat_to_string n \<noteq> []" "[] \<noteq> nat_to_string n"
  by (simp_all add: nat_to_string.simps [of n])

lemma nat_to_string_inj: "nat_to_string a = nat_to_string b \<Longrightarrow> a = b"
proof (induction a arbitrary: b rule: nat_to_string.induct)
  case (1 a)
  show ?case
  proof (cases "a < 10")
    case True
    show ?thesis
    proof (cases "b < 10")
      case True
      with \<open>a < 10\<close> "1.prems" show ?thesis by (simp add: nat_to_string.simps digit_char_eq_iff)
    next
      case False
      with \<open>a < 10\<close> "1.prems" show ?thesis
        by (simp add: nat_to_string.simps [of a] nat_to_string.simps [of b])
    qed
  next
    case False
    show ?thesis
    proof (cases "b < 10")
      case True
      with \<open>\<not> a < 10\<close> "1.prems" show ?thesis
        by (simp add: nat_to_string.simps [of a] nat_to_string.simps [of b])
    next
      case b: False
      with \<open>\<not> a < 10\<close> "1.prems" have "nat_to_string (a div 10) = nat_to_string (b div 10)"
        and "digit_char (a mod 10) = digit_char (b mod 10)"
        by (simp_all add: nat_to_string.simps [of a] nat_to_string.simps [of b])
      with "1.IH" \<open>\<not> a < 10\<close> have "a div 10 = b div 10" "a mod 10 = b mod 10"
        by (auto simp: digit_char_eq_iff)
      then show ?thesis by (metis div_mult_mod_eq)
    qed
  qed
qed

lemma digit_char_punct: "d < 10 \<Longrightarrow> digit_char d \<noteq> CHR ''-'' \<and> digit_char d \<noteq> CHR ''.''"
  unfolding less_10_cases by (auto simp: digit_char_def)

lemma nat_to_string_no_punct: "c \<in> set (nat_to_string n) \<Longrightarrow> c \<noteq> CHR ''-'' \<and> c \<noteq> CHR ''.''"
proof -
  assume "c \<in> set (nat_to_string n)"
  with nat_to_string_digits [of n] have "c \<in> digit_char ` {..<10}" by (rule subsetD)
  then obtain d where "d < 10" "c = digit_char d" by auto
  then show ?thesis by (simp add: digit_char_punct)
qed

lemma int_to_string_nonneg:
  "0 \<le> i \<Longrightarrow> CHR ''-'' \<notin> set (int_to_string i) \<and> CHR ''.'' \<notin> set (int_to_string i)"
  using nat_to_string_no_punct [of _ "nat i"] by (auto simp: int_to_string_def)

lemma int_to_string_inj: "0 \<le> i \<Longrightarrow> 0 \<le> j \<Longrightarrow> int_to_string i = int_to_string j \<Longrightarrow> i = j"
  by (auto simp: int_to_string_def dest: nat_to_string_inj)

end
