(* ===== verification/Calendar_Keys.thy ===== *)
theory Calendar_Keys
  imports Js_Runtime
begin

text \<open>
  The \<open>YYYY-MM-DD\<close> keys of calendar entries: the client's formatter
  (\<open>src/public/cuadrante.js\<close>, line 229), the server's bounds for a month query
  (\<open>src/server.js\<close>, lines 160-167), and how the lexicographic order MongoDB uses on
  them relates to calendar order.
\<close>

text \<open>
  \<open>`${year}-${String(month + 1).padStart(2, '0')}-${String(dayCounter).padStart(2, '0')}`\<close>,
  with \<open>month\<close> counted from 0 as \<open>Date.getMonth\<close> does.
\<close>

definition date_key :: "int \<Rightarrow> int \<Rightarrow> int \<Rightarrow> date_key" where
  "date_key year month day =
     int_to_string year @ ''-'' @ pad_start 2 (CHR ''0'') (int_to_string (month + 1)) @ ''-'' @
     pad_start 2 (CHR ''0'') (int_to_string day)"

text \<open>
  The bounds of \<open>GET /api/calendar/:year/:month\<close>: \<open>month\<close> counted from 1; the end
  key's day is \<open>new Date(year, month, 0).getDate()\<close>, not padded.  The handler also
  computes \<open>startDate\<close>, which it never uses.
\<close>

definition month_keys :: "int \<Rightarrow> int \<Rightarrow> int \<Rightarrow> date_key \<times> date_key" where
  "month_keys tz year month =
     (let endDate = new_date_local tz year month 0;
          mm = pad_start 2 (CHR ''0'') (int_to_string month)
      in (int_to_string year @ ''-'' @ mm @ ''-01'',
          int_to_string year @ ''-'' @ mm @ ''-'' @ int_to_string (get_date tz endDate)))"

subsection \<open>Keys as fixed-width digit blocks\<close>

definition key_of :: "nat \<Rightarrow> nat \<Rightarrow> nat \<Rightarrow> date_key" where
  "key_of y m d = fixed_digits 4 y @ ''-'' @ fixed_digits 2 m @ ''-'' @ fixed_digits 2 d"

lemma int_to_string_4:
  assumes "1000 \<le> y" and "y \<le> 9999"
  shows "int_to_string y = fixed_digits 4 (nat y)"
proof -
  have "nat_to_string (nat y) = fixed_digits (Suc 3) (nat y)"
    by (rule nat_to_string_fixed) (use assms in simp_all)
  with assms show ?thesis by (simp add: int_to_string_def)
qed

lemma int_to_string_2:
  assumes "10 \<le> x" and "x < 100"
  shows "int_to_string x = fixed_digits 2 (nat x)"
proof -
  have "nat_to_string (nat x) = fixed_digits (Suc 1) (nat x)"
    by (rule nat_to_string_fixed) (use assms in simp_all)
  with assms show ?thesis by (simp add: int_to_string_def numeral_2_eq_2)
qed

lemma pad2_int_to_string:
  "0 \<le> x \<Longrightarrow> x < 100 \<Longrightarrow> pad_start 2 (CHR ''0'') (int_to_string x) = fixed_digits 2 (nat x)"
  using pad2_nat_to_string [of "nat x"] by (simp add: int_to_string_def)

lemma key_of_le_iff:
  assumes "y1 < 10000" "y2 < 10000" "m1 < 100" "m2 < 100" "d1 < 100" "d2 < 100"
  shows "key_of y1 m1 d1 \<le> key_of y2 m2 d2 \<longleftrightarrow>
         y1 < y2 \<or> y1 = y2 \<and> (m1 < m2 \<or> m1 = m2 \<and> d1 \<le> d2)"
proof -
  have "(10::nat) ^ 4 = 10000" "(10::nat) ^ 2 = 100" by simp_all
  with assms show ?thesis
    unfolding key_of_def
    by (simp add: less_eq_append_same_length less_append_same_length fixed_digits_le_iff
        fixed_digits_less_iff fixed_digits_eq_iff)
qed

lemma days_in_month_bounds: "m < 12 \<Longrightarrow> 28 \<le> days_in_month y m \<and> days_in_month y m \<le> 31"
  unfolding less_12_cases by (auto simp: days_in_month_def month_start_def)

lemma fixed_digits_2_1: "fixed_digits 2 (Suc 0) = ''01''"
  by (simp add: numeral_2_eq_2 digit_char_def)

lemma month_end_date:
  assumes "1000 \<le> year" and "1 \<le> month" and "month \<le> 12"
  shows "get_date tz (new_date_local tz year month 0) = days_in_month year (nat month - 1)"
proof -
  let ?m = "nat month - 1"
  have fy: "make_full_year year = year" using assms(1) by (simp add: make_full_year_def)
  have "make_day year (int (nat month)) 0 = make_day year (int ?m) (days_in_month year ?m)"
    by (rule make_day_zero) (use assms in simp_all)
  with assms(2) have "new_date_local tz year month 0 = new_date_local tz year (int ?m) (days_in_month year ?m)"
    by (simp add: new_date_local_def fy)
  moreover have "?m < 12" using assms(3) by simp
  ultimately show ?thesis
    using new_date_local_fields(3) [of year ?m "days_in_month year ?m" tz] assms(1)
      days_in_month_bounds [of ?m year] by simp
qed

lemma month_keys_fixed:
  assumes "1000 \<le> year" "year \<le> 9999" "1 \<le> month" "month \<le> 12"
  shows "month_keys tz year month =
    (key_of (nat year) (nat month) 1,
     key_of (nat year) (nat month) (nat (days_in_month year (nat month - 1))))"
proof -
  have "nat month - 1 < 12" using assms by simp
  then have b: "28 \<le> days_in_month year (nat month - 1)" "days_in_month year (nat month - 1) < 100"
    using days_in_month_bounds [of "nat month - 1" year] by simp_all
  show ?thesis
    using assms b
    by (simp add: month_keys_def key_of_def month_end_date int_to_string_4 int_to_string_2
        pad2_int_to_string fixed_digits_2_1 Let_def)
qed

lemma date_key_fixed:
  assumes "1000 \<le> y" "y \<le> 9999" "0 \<le> m" "m < 12" "1 \<le> d" "d < 100"
  shows "date_key y m d = key_of (nat y) (nat (m + 1)) (nat d)"
  using assms by (simp add: date_key_def key_of_def int_to_string_4 pad2_int_to_string)

text \<open>
  The keys the client writes are the valid dates of years 1000 to 9999 in this format.
\<close>

definition valid_date :: "int \<Rightarrow> int \<Rightarrow> int \<Rightarrow> bool" where
  "valid_date y m d \<longleftrightarrow> 1000 \<le> y \<and> y \<le> 9999 \<and> 0 \<le> m \<and> m < 12 \<and> 1 \<le> d \<and> d \<le> days_in_month y (nat m)"

lemma valid_date_key_of:
  assumes "valid_date y m d"
  shows "date_key y m d = key_of (nat y) (nat (m + 1)) (nat d)"
    and "nat y < 10000" "nat (m + 1) < 100" "nat d < 100"
proof -
  from assms have "nat m < 12" unfolding valid_date_def by arith
  from days_in_month_bounds [OF this, of y] assms have "d \<le> 31" by (simp add: valid_date_def)
  with assms show "date_key y m d = key_of (nat y) (nat (m + 1)) (nat d)"
    by (intro date_key_fixed) (simp_all add: valid_date_def)
  show "nat y < 10000" "nat (m + 1) < 100" "nat d < 100"
    using assms \<open>d \<le> 31\<close> unfolding valid_date_def by arith+
qed

lemma month_range_iff:
  assumes "1000 \<le> year" "year \<le> 9999" "1 \<le> month" "month \<le> 12" and "valid_date y m d"
  shows "fst (month_keys tz year month) \<le> date_key y m d \<and> date_key y m d \<le> snd (month_keys tz year month)
         \<longleftrightarrow> y = year \<and> m + 1 = month"
proof -
  let ?dim = "days_in_month year (nat month - 1)"
  have "nat month - 1 < 12" using assms(4) by simp
  from days_in_month_bounds [OF this, of year] have dim: "nat ?dim < 100" by arith
  have b: "nat year < 10000" "nat month < 100" using assms(1-4) by simp_all
  note k = valid_date_key_of [OF assms(5)]
  have "fst (month_keys tz year month) \<le> date_key y m d \<longleftrightarrow>
      nat year < nat y \<or> nat year = nat y \<and> (nat month < nat (m + 1) \<or> nat month = nat (m + 1) \<and> 1 \<le> nat d)"
    using key_of_le_iff [of "nat year" "nat y" "nat month" "nat (m + 1)" 1 "nat d"] b k
    by (simp add: month_keys_fixed [OF assms(1-4)])
  moreover have "date_key y m d \<le> snd (month_keys tz year month) \<longleftrightarrow>
      nat y < nat year \<or> nat y = nat year \<and> (nat (m + 1) < nat month \<or> nat (m + 1) = nat month \<and> nat d \<le> nat ?dim)"
    using key_of_le_iff [of "nat y" "nat year" "nat (m + 1)" "nat month" "nat d" "nat ?dim"] b k dim
    by (simp add: month_keys_fixed [OF assms(1-4)])
  moreover have "y = year \<and> m + 1 = month \<Longrightarrow> d \<le> ?dim"
  proof -
    assume "y = year \<and> m + 1 = month"
    moreover have "nat (m + 1) - 1 = nat m" using assms(5) unfolding valid_date_def by arith
    ultimately show "d \<le> ?dim" using assms(5) by (auto simp: valid_date_def)
  qed
  moreover have nn: "0 \<le> year" "0 \<le> y" "0 \<le> month" "0 \<le> m + 1" "0 \<le> d" "0 \<le> ?dim"
    using assms days_in_month_bounds [of "nat month - 1" year] unfolding valid_date_def by arith+
  ultimately have "fst (month_keys tz year month) \<le> date_key y m d \<and> date_key y m d \<le> snd (month_keys tz year month)
      \<longleftrightarrow> (year < y \<or> year = y \<and> (month < m + 1 \<or> month = m + 1 \<and> 1 \<le> d)) \<and>
          (y < year \<or> y = year \<and> (m + 1 < month \<or> m + 1 = month \<and> d \<le> ?dim))"
    using assms(1,3) assms(5) unfolding valid_date_def
    by (simp add: nat_less_eq_zless eq_nat_nat_iff nat_le_eq_zle Suc_le_eq)
  also have "\<dots> \<longleftrightarrow> y = year \<and> m + 1 = month"
    using \<open>y = year \<and> m + 1 = month \<Longrightarrow> d \<le> ?dim\<close> assms(5) unfolding valid_date_def by auto
  finally show ?thesis .
qed

lemma parse_date_key:
  assumes "valid_date y m d"
  shows "parse_date_only (date_key y m d) = Some (y, m + 1, d)"
proof -
  note k = valid_date_key_of [OF assms]
  have "(10::nat) ^ 4 = 10000" "(10::nat) ^ 2 = 100" by simp_all
  then have v: "digits_value 0 (fixed_digits 4 (nat y)) = Some (nat y)"
    "digits_value 0 (fixed_digits 2 (nat (m + 1))) = Some (nat (m + 1))"
    "digits_value 0 (fixed_digits 2 (nat d)) = Some (nat d)"
    using k(2-4) by (simp_all add: digits_value_fixed)
  have s: "take 4 (key_of (nat y) (nat (m + 1)) (nat d)) = fixed_digits 4 (nat y)"
    "take 2 (drop 5 (key_of (nat y) (nat (m + 1)) (nat d))) = fixed_digits 2 (nat (m + 1))"
    "drop 8 (key_of (nat y) (nat (m + 1)) (nat d)) = fixed_digits 2 (nat d)"
    "length (key_of (nat y) (nat (m + 1)) (nat d)) = 10"
    "key_of (nat y) (nat (m + 1)) (nat d) ! 4 = CHR ''-''"
    "key_of (nat y) (nat (m + 1)) (nat d) ! 7 = CHR ''-''"
    by (simp_all add: key_of_def nth_append)
  from assms have "1 \<le> nat (m + 1)" "nat (m + 1) \<le> 12" "1 \<le> nat d"
    "int (nat d) \<le> days_in_month (int (nat y)) (nat (m + 1) - 1)"
    by (auto simp: valid_date_def nat_add_distrib)
  with assms show ?thesis
    unfolding k(1) parse_date_only_def s v by (simp add: valid_date_def)
qed

subsection \<open>Reading a key back in a time zone\<close>

text \<open>
  A key parsed by \<open>new Date\<close> is UTC midnight of its day; read with the local getters
  in a zone \<open>tz\<close> with \<open>-1 day < tz < 1 day\<close>, it names the same day when
  \<open>0 \<le> tz\<close> and the day before when \<open>tz < 0\<close>.  \<open>ym_of_day\<close> is the pair
  (\<open>getFullYear\<close>, \<open>getMonth\<close>) of a local day number.
\<close>

definition prev_month :: "int \<Rightarrow> int \<Rightarrow> int \<times> int" where
  "prev_month y m = (if m = 0 then (y - 1, 11) else (y, m - 1))"

definition ym_of_day :: "int \<Rightarrow> int \<times> int" where
  "ym_of_day n = (let y = year_from_day n in (y, month_from_day_in_year (in_leap_year y) (n - day_from_year y)))"

lemma ym_of_local_day: "(get_full_year tz t, get_month tz t) = ym_of_day (local_day tz t)"
  by (simp add: get_full_year_def get_month_def ym_of_day_def Let_def)

lemma ym_of_make_day:
  "m < 12 \<Longrightarrow> 1 \<le> d \<Longrightarrow> d \<le> days_in_month y m \<Longrightarrow> ym_of_day (make_day y (int m) d) = (y, int m)"
  using make_day_fields(1,2) by (simp add: ym_of_day_def Let_def)

lemma local_day_whole_day:
  "local_day tz (n * ms_per_day) = n + tz div ms_per_day"
  by (simp add: local_day_def ms_per_day_def)

lemma make_day_pred: "make_day y m d - 1 = make_day y m (d - 1)"
  by (simp add: make_day_def Let_def)

lemma make_day_first_prev:
  assumes "0 \<le> m" and "m < 12"
  shows "make_day y m 1 - 1 =
         make_day (fst (prev_month y m)) (snd (prev_month y m))
           (days_in_month (fst (prev_month y m)) (nat (snd (prev_month y m))))"
proof (cases "m = 0")
  case True
  have "day_from_year y = day_from_year (y - 1) + days_in_year (y - 1)"
    using day_from_year_next [of "y - 1"] by simp
  with True show ?thesis
    by (simp add: make_day_def prev_month_def days_in_month_def month_start_def days_in_year_def)
next
  case False
  with assms have m: "1 \<le> nat m" "nat m \<le> 12" "int (nat m) = m" by simp_all
  have "make_day y (int (nat m)) 0 = make_day y (int (nat m - 1)) (days_in_month y (nat m - 1))"
    using m(1,2) by (rule make_day_zero)
  moreover have "int (nat m - 1) = m - 1" "nat m - 1 = nat (m - 1)" using False assms by simp_all
  ultimately show ?thesis using False m(3) make_day_pred [of y m 1]
    by (simp add: prev_month_def)
qed

lemma new_date_string_key:
  "valid_date y m d \<Longrightarrow> new_date_string (date_key y m d) = Some (make_day y m d * ms_per_day)"
  by (simp add: new_date_string_def parse_date_key)

lemma tz_div_day:
  assumes "- ms_per_day < tz" and "tz < ms_per_day"
  shows "tz div ms_per_day = (if tz < 0 then -1 else 0)"
proof (cases "tz < 0")
  case True
  with assms have "(tz + ms_per_day) div ms_per_day = 0"
    by (intro div_pos_pos_trivial) (simp_all add: ms_per_day_def)
  with True show ?thesis by (simp add: ms_per_day_def)
next
  case False
  with assms show ?thesis by (simp add: div_pos_pos_trivial)
qed

lemma ym_of_key_day:
  assumes "valid_date y m d" and "- ms_per_day < tz" and "tz < ms_per_day"
  shows "ym_of_day (local_day tz (make_day y m d * ms_per_day)) =
         (if tz < 0 \<and> d = 1 then prev_month y m else (y, m))"
proof -
  from assms(1) have m: "nat m < 12" "int (nat m) = m" "1 \<le> d" "d \<le> days_in_month y (nat m)"
    by (auto simp: valid_date_def)
  have ld: "local_day tz (make_day y m d * ms_per_day) = make_day y m d + (if tz < 0 then -1 else 0)"
    using assms(2,3) by (simp add: local_day_whole_day tz_div_day)
  show ?thesis
  proof (cases "tz < 0")
    case False
    with ld m show ?thesis using ym_of_make_day [of "nat m" d y] by simp
  next
    case True
    show ?thesis
    proof (cases "d = 1")
      case False
      with m have "1 \<le> d - 1" "d - 1 \<le> days_in_month y (nat m)" by simp_all
      with True False ld m show ?thesis
        using ym_of_make_day [of "nat m" "d - 1" y] make_day_pred [of y m d] by simp
    next
      case d1: True
      let ?p = "prev_month y m"
      have p: "nat (snd ?p) < 12" "int (nat (snd ?p)) = snd ?p"
        using assms(1) by (auto simp: prev_month_def valid_date_def)
      have "1 \<le> days_in_month (fst ?p) (nat (snd ?p))"
        using days_in_month_pos [OF p(1), of "fst ?p"] by simp
      then have "ym_of_day (make_day (fst ?p) (snd ?p) (days_in_month (fst ?p) (nat (snd ?p)))) = ?p"
        using ym_of_make_day [OF p(1), of "days_in_month (fst ?p) (nat (snd ?p))" "fst ?p"] p(2)
        by simp
      moreover have "0 \<le> m" "m < 12" using assms(1) by (auto simp: valid_date_def)
      ultimately show ?thesis using True d1 ld make_day_first_prev [of m y] by simp
    qed
  qed
qed

end
