(* ===== verification/Month_Query.thy ===== *)
theory Month_Query
  imports Entry_Store Calendar_Keys "HOL-Library.Multiset"
begin

text \<open>
  The two month queries of \<open>src/server.js\<close>: the entries of a month
  (\<open>GET /api/calendar/:year/:month\<close>, lines 158-176), a range query on the string
  keys, and the change-log report (\<open>GET /api/logs/:year/:month\<close>, lines 251-265), a
  range query on the records' timestamps sorted newest first.  The server's time zone
  is the parameter \<open>tz\<close> (local time minus UTC, in milliseconds).
\<close>

subsection \<open>Entries of a month\<close>

definition list_month :: "int \<Rightarrow> int \<Rightarrow> int \<Rightarrow> srv \<Rightarrow> reply" where
  "list_month tz year month s =
     (let (startKey, endKey) = month_keys tz year month
      in Inr (200, PEntries (filter (\<lambda>e. startKey \<le> dateKey e \<and> dateKey e \<le> endKey) (entry_docs s))))"

text \<open>
  A key is well formed when it parses as a date of the years 1000 to 9999 and is the
  client's formatting of that date.
\<close>

definition key_wf :: "date_key \<Rightarrow> bool" where
  "key_wf k \<longleftrightarrow>
     (case parse_date_only k of
        None \<Rightarrow> False
      | Some (y, m, d) \<Rightarrow> 1000 \<le> y \<and> y \<le> 9999 \<and> date_key y (m - 1) d = k)"

text \<open>The reference query: parse each key and compare its year and month.\<close>

definition in_month :: "int \<Rightarrow> int \<Rightarrow> date_key \<Rightarrow> bool" where
  "in_month year month k =
     (case parse_date_only k of None \<Rightarrow> False | Some (y, m, d) \<Rightarrow> y = year \<and> m = month)"

lemma parse_date_only_valid:
  assumes "parse_date_only k = Some (y, m, d)"
  shows "0 \<le> y \<and> 1 \<le> m \<and> m \<le> 12 \<and> 1 \<le> d \<and> d \<le> days_in_month y (nat (m - 1))"
  using assms
  by (auto simp: parse_date_only_def nat_diff_distrib split: if_splits option.splits prod.splits)

lemma key_wf_valid:
  assumes "key_wf k"
  obtains y m d where "valid_date y m d" and "k = date_key y m d" and "in_month yr mo k \<longleftrightarrow> y = yr \<and> m + 1 = mo"
proof -
  from assms obtain y m d where p: "parse_date_only k = Some (y, m, d)"
    and y: "1000 \<le> y" "y \<le> 9999" and k: "date_key y (m - 1) d = k"
    by (auto simp: key_wf_def split: option.splits)
  from parse_date_only_valid [OF p] y have v: "valid_date y (m - 1) d"
    by (simp add: valid_date_def)
  moreover from p have "in_month yr mo k \<longleftrightarrow> y = yr \<and> m - 1 + 1 = mo"
    by (auto simp: in_month_def)
  ultimately show ?thesis using that k by blast
qed

lemma list_month_filter:
  assumes "1000 \<le> year" "year \<le> 9999" "1 \<le> month" "month \<le> 12"
    and "\<forall>e \<in> set (entry_docs s). key_wf (dateKey e)"
  shows "list_month tz year month s =
           Inr (200, PEntries (filter (\<lambda>e. in_month year month (dateKey e)) (entry_docs s)))"
proof -
  have "filter (\<lambda>e. fst (month_keys tz year month) \<le> dateKey e \<and> dateKey e \<le> snd (month_keys tz year month))
          (entry_docs s) =
        filter (\<lambda>e. in_month year month (dateKey e)) (entry_docs s)"
  proof (rule filter_cong [OF refl])
    fix e
    assume "e \<in> set (entry_docs s)"
    with assms(5) have "key_wf (dateKey e)" by blast
    then obtain y m d where v: "valid_date y m d" and k: "dateKey e = date_key y m d"
      and im: "in_month year month (dateKey e) \<longleftrightarrow> y = year \<and> m + 1 = month"
      by (rule key_wf_valid)
    show "(fst (month_keys tz year month) \<le> dateKey e \<and> dateKey e \<le> snd (month_keys tz year month)) =
          in_month year month (dateKey e)"
      unfolding im unfolding k by (rule month_range_iff [OF assms(1-4) v])
  qed
  then show ?thesis by (simp add: list_month_def case_prod_beta)
qed

text \<open>
  C4.  On well-formed keys the lexicographic range query of the handler selects
  exactly the entries whose key parses to the requested year and month: it is the
  calendar-aware query, in the order of the collection.
\<close>

theorem list_month_equiv:
  assumes "1000 \<le> year" "year \<le> 9999" "1 \<le> month" "month \<le> 12"
    and "\<forall>e \<in> set (entry_docs s). key_wf (dateKey e)"
  shows "list_month tz year month s =
           Inr (200, PEntries (filter (\<lambda>e. in_month year month (dateKey e)) (entry_docs s)))"
  using assms by (rule list_month_filter)

theorem list_month_equiv_witness:
  "list_month 0 2025 9
     (srv_init\<lparr>entry_docs := [new_entry_doc ''2025-08-31'', new_entry_doc ''2025-09-18'',
                               new_entry_doc ''2025-10-01'']\<rparr>) =
   Inr (200, PEntries [new_entry_doc ''2025-09-18''])"
proof -
  let ?s = "srv_init\<lparr>entry_docs := [new_entry_doc ''2025-08-31'', new_entry_doc ''2025-09-18'',
                               new_entry_doc ''2025-10-01'']\<rparr>"
  have wf: "\<forall>e \<in> set (entry_docs ?s). key_wf (dateKey e)"
    by code_simp
  have "list_month 0 2025 9 ?s =
          Inr (200, PEntries (filter (\<lambda>e. in_month 2025 9 (dateKey e)) (entry_docs ?s)))"
    by (rule list_month_equiv) (simp_all add: wf)
  moreover have "filter (\<lambda>e. in_month 2025 9 (dateKey e)) (entry_docs ?s) = [new_entry_doc ''2025-09-18'']"
    by code_simp
  ultimately show ?thesis by simp
qed

subsection \<open>The change-log report of a month\<close>

text \<open>
  \<open>startDate = new Date(year, month - 1, 1)\<close> and \<open>endDate = new Date(year, month, 0)\<close>:
  local midnight at the start of the first and of the last day of the month.  Records
  are selected by their own timestamp \<open>date\<close> and sorted newest first (records with
  equal timestamps keep their insertion order here; MongoDB leaves it unspecified).
\<close>

definition log_window :: "int \<Rightarrow> int \<Rightarrow> int \<Rightarrow> millis \<times> millis" where
  "log_window tz year month = (new_date_local tz year (month - 1) 1, new_date_local tz year month 0)"

definition get_logs :: "int \<Rightarrow> int \<Rightarrow> int \<Rightarrow> srv \<Rightarrow> reply" where
  "get_logs tz year month s =
     (let (startDate, endDate) = log_window tz year month
      in Inr (200, PLogs (sort_key (\<lambda>l. - date l)
                           (filter (\<lambda>l. startDate \<le> date l \<and> date l \<le> endDate) (log_docs s)))))"

lemma sorted_neg_desc:
  "sorted (map (\<lambda>l. - date l) xs) \<Longrightarrow> sorted_wrt (\<lambda>a b. date b \<le> date a) xs"
  by (induction xs) auto

lemma get_logs_sort_filter:
  "\<exists>r. get_logs tz year month s = Inr (200, PLogs r) \<and>
       sorted_wrt (\<lambda>a b. date b \<le> date a) r \<and>
       mset r = mset (filter (\<lambda>l. fst (log_window tz year month) \<le> date l \<and>
                                  date l \<le> snd (log_window tz year month)) (log_docs s))"
proof -
  let ?w = "filter (\<lambda>l. fst (log_window tz year month) \<le> date l \<and>
                         date l \<le> snd (log_window tz year month)) (log_docs s)"
  have "get_logs tz year month s = Inr (200, PLogs (sort_key (\<lambda>l. - date l) ?w))"
    by (simp add: get_logs_def case_prod_beta)
  moreover have "sorted_wrt (\<lambda>a b. date b \<le> date a) (sort_key (\<lambda>l. - date l) ?w)"
    by (rule sorted_neg_desc) simp
  moreover have "mset (sort_key (\<lambda>l. - date l) ?w) = mset ?w" by simp
  ultimately show ?thesis by blast
qed

lemma local_day_within:
  "0 \<le> x \<Longrightarrow> x < ms_per_day \<Longrightarrow>
   local_day tz (new_date_local tz y m d + x) = make_day (make_full_year y) m d"
  by (simp add: local_day_def new_date_local_def ms_per_day_def)

lemma log_window_end:
  assumes "1000 \<le> year" "1 \<le> month" "month \<le> 12"
  shows "snd (log_window tz year month) =
         new_date_local tz year (month - 1) (days_in_month year (nat month - 1))"
proof -
  have fy: "make_full_year year = year" using assms(1) by (simp add: make_full_year_def)
  have "make_day year (int (nat month)) 0 =
        make_day year (int (nat month - 1)) (days_in_month year (nat month - 1))"
    by (rule make_day_zero) (use assms in simp_all)
  moreover have "int (nat month - 1) = month - 1" using assms(2) by simp
  ultimately show ?thesis
    using assms(2) by (simp add: log_window_def new_date_local_def fy)
qed

lemma log_window_start: "fst (log_window tz year month) = new_date_local tz year (month - 1) 1"
  by (simp add: log_window_def)

text \<open>
  C7.  The report of a month holds the change-log records whose timestamp lies from
  local midnight of the month's first day to local midnight of its last day, whatever
  entry they describe, sorted by timestamp from newest to oldest.
\<close>

theorem get_logs_sorted_window:
  assumes "1000 \<le> year" "1 \<le> month" "month \<le> 12"
  shows "\<exists>r. get_logs tz year month s = Inr (200, PLogs r) \<and>
       sorted_wrt (\<lambda>a b. date b \<le> date a) r \<and>
       mset r = mset (filter (\<lambda>l. new_date_local tz year (month - 1) 1 \<le> date l \<and>
           date l \<le> new_date_local tz year (month - 1) (days_in_month year (nat month - 1)))
         (log_docs s))"
  using get_logs_sort_filter [of tz year month s]
  unfolding log_window_start log_window_end [OF assms] .

theorem get_logs_sorted_window_witness:
  "\<exists>r. get_logs 0 2025 9 srv_init = Inr (200, PLogs r) \<and>
       sorted_wrt (\<lambda>a b. date b \<le> date a) r \<and>
       mset r = mset (filter (\<lambda>l. new_date_local 0 2025 8 1 \<le> date l \<and>
           date l \<le> new_date_local 0 2025 8 (days_in_month 2025 8)) (log_docs srv_init))"
  using get_logs_sorted_window [of 2025 9 0 srv_init] by simp

text \<open>
  C8.  The window ends at local midnight at the start of the month's last day, so a
  change recorded later on that day, although its timestamp reads as a date of the
  month, is missing from the month's report (and from the next month's).
\<close>

theorem get_logs_drops_last_day:
  assumes "1000 \<le> year" "year \<le> 9999" "1 \<le> month" "month \<le> 12"
    and "0 < x" "x < ms_per_day"
    and "date l = new_date_local tz year (month - 1) (days_in_month year (nat month - 1)) + x"
  shows "get_full_year tz (date l) = year \<and> get_month tz (date l) = month - 1 \<and>
         (\<forall>r. get_logs tz year month s = Inr (200, PLogs r) \<longrightarrow> l \<notin> set r)"
proof -
  let ?m = "nat month - 1"
  have m: "?m < 12" "int ?m = month - 1" using assms(3,4) by simp_all
  have fy: "make_full_year year = year" using assms(1) by (simp add: make_full_year_def)
  have dim: "1 \<le> days_in_month year ?m" using days_in_month_pos [OF m(1), of year] by simp
  have ld: "local_day tz (date l) = make_day year (int ?m) (days_in_month year ?m)"
    using assms(5-7) local_day_within [of x tz year "month - 1"] m(2) fy by simp
  have fields: "get_full_year tz (date l) = year" "get_month tz (date l) = int ?m"
    using make_day_fields [OF m(1) dim order_refl] ld
    by (simp_all add: get_full_year_def get_month_def)
  have "snd (log_window tz year month) < date l"
    using log_window_end [OF assms(1,3,4)] assms(5,7) by simp
  then have "\<forall>r. get_logs tz year month s = Inr (200, PLogs r) \<longrightarrow> l \<notin> set r"
    by (auto simp: get_logs_def case_prod_beta)
  with fields m(2) show ?thesis by simp
qed

theorem get_logs_drops_last_day_witness:
  "let l = \<lparr>date = new_date_local 0 2025 8 30 + 43200000, user = ''Bob'', action = Update,
            entryDateKey = ''2025-09-30'', previousData = None, newData = None\<rparr>
   in get_full_year 0 (date l) = 2025 \<and> get_month 0 (date l) = 8 \<and>
      (\<forall>r. get_logs 0 2025 9 (srv_init\<lparr>log_docs := [l]\<rparr>) = Inr (200, PLogs r) \<longrightarrow> l \<notin> set r)"
proof -
  have dim: "days_in_month 2025 8 = 30" by code_simp
  show ?thesis
    unfolding Let_def
    using get_logs_drops_last_day [of 2025 9 43200000
        "\<lparr>date = new_date_local 0 2025 8 30 + 43200000, user = ''Bob'', action = Update,
          entryDateKey = ''2025-09-30'', previousData = None, newData = None\<rparr>" 0
        "srv_init\<lparr>log_docs := [\<lparr>date = new_date_local 0 2025 8 30 + 43200000, user = ''Bob'',
          action = Update, entryDateKey = ''2025-09-30'', previousData = None, newData = None\<rparr>]\<rparr>"]
    by (simp add: dim ms_per_day_def)
qed

end
