(* ===== verification/Users.thy ===== *)
theory Users
  imports Documents
begin

text \<open>
  The user routes of \<open>src/server.js\<close>: the default administrator created at start-up
  (\<open>createDefaultAdmin\<close>, lines 50-65), login by identifier (lines 104-115), the
  user list (118-125), creation (127-141) and deletion (143-155), with the user
  schema's validators and unique indexes (lines 68-78).  No route checks who sends
  the request (the two \<open>TODO\<close> comments of lines 128 and 144).
\<close>

subsection \<open>Request bodies and roles\<close>

text \<open>The body of \<open>POST /api/users\<close>; each path may be absent.\<close>

record user_body =
  ub_name :: "string option"
  ub_identifier :: "string option"
  ub_role :: "string option"

text \<open>The \<open>enum\<close> of the \<open>role\<close> path and the strings it stores.\<close>

definition role_of_string :: "string \<Rightarrow> role option" where
  "role_of_string r =
     (if r = ''admin'' then Some Admin else if r = ''editor'' then Some Editor
      else if r = ''viewer'' then Some Viewer else None)"

fun role_name :: "role \<Rightarrow> string" where
  "role_name Admin = ''admin''"
| "role_name Editor = ''editor''"
| "role_name Viewer = ''viewer''"

subsection \<open>Mongoose operations on the user collection\<close>

text \<open>
  \<open>new User({name, identifier, role})\<close> and the validation of its \<open>save()\<close>: the
  \<open>role\<close> path takes its default \<open>'viewer'\<close> when absent; every path that fails its
  \<open>required\<close> or \<open>enum\<close> validator is reported.  The fresh \<open>_id\<close> is \<open>i\<close>.
\<close>

definition role_errors :: "string option \<Rightarrow> string list" where
  "role_errors r = (case r of None \<Rightarrow> [] | Some x \<Rightarrow> if role_of_string x = None then [''role''] else [])"

definition new_user :: "user_body \<Rightarrow> nat \<Rightarrow> db_error + user" where
  "new_user b i =
     (let errs = required ''name'' (ub_name b) @ required ''identifier'' (ub_identifier b)
                 @ role_errors (ub_role b)
      in if errs \<noteq> [] then Inl (ValidationError errs)
         else Inr \<lparr>uid = i, user_name = the (ub_name b), user_identifier = the (ub_identifier b),
                   role = (case ub_role b of None \<Rightarrow> Viewer | Some r \<Rightarrow> the (role_of_string r))\<rparr>)"

text \<open>Insertion under the unique indexes on \<open>name\<close> and on \<open>identifier\<close>.\<close>

definition insert_user :: "user list \<Rightarrow> user \<Rightarrow> db_error + user list" where
  "insert_user us u =
     (if user_name u \<in> user_name ` set us then Inl (DuplicateKey ''name'')
      else if user_identifier u \<in> user_identifier ` set us then Inl (DuplicateKey ''identifier'')
      else Inr (us @ [u]))"

subsection \<open>Handlers\<close>

text \<open>\<open>createDefaultAdmin\<close> (lines 50-65): only on an empty collection.\<close>

definition create_default_admin :: "srv \<Rightarrow> srv" where
  "create_default_admin s =
     (if length (user_docs s) = 0
      then s\<lparr>user_docs := user_docs s @ [\<lparr>uid = next_uid s, user_name = ''Gustavo'',
                                         user_identifier = ''3434'', role = Admin\<rparr>],
             next_uid := Suc (next_uid s)\<rparr>
      else s)"

text \<open>\<open>POST /api/login\<close> (lines 104-115): \<open>findOne({identifier})\<close>.\<close>

definition login :: "string \<Rightarrow> srv \<Rightarrow> reply" where
  "login i s =
     (case find (\<lambda>u. user_identifier u = i) (user_docs s) of
        None \<Rightarrow> Inl (NotFound ''Identificador no encontrado'')
      | Some u \<Rightarrow> Inr (200, PUser u))"

text \<open>\<open>GET /api/users\<close> (lines 118-125).\<close>

definition get_users :: "srv \<Rightarrow> reply" where
  "get_users s = Inr (200, PUsers (user_docs s))"

text \<open>\<open>POST /api/users\<close> (lines 127-141): save, broadcast \<open>userAdded\<close>, answer 201.\<close>

definition post_user :: "user_body \<Rightarrow> srv \<Rightarrow> reply \<times> srv" where
  "post_user b s =
     (case new_user b (next_uid s) of
        Inl err \<Rightarrow> (Inl (BadRequest err), s)
      | Inr u \<Rightarrow>
          (case insert_user (user_docs s) u of
             Inl err \<Rightarrow> (Inl (BadRequest err), s)
           | Inr us \<Rightarrow> (Inr (201, PUser u),
                        emit (UserAdded u) (s\<lparr>user_docs := us, next_uid := Suc (next_uid s)\<rparr>))))"

text \<open>\<open>DELETE /api/users/:id\<close> (lines 143-155): \<open>findByIdAndDelete\<close>, broadcast of the id.\<close>

definition delete_user :: "nat \<Rightarrow> srv \<Rightarrow> reply \<times> srv" where
  "delete_user i s =
     (case find (\<lambda>u. uid u = i) (user_docs s) of
        None \<Rightarrow> (Inl (NotFound ''Usuario no encontrado''), s)
      | Some u \<Rightarrow> (Inr (200, PMessage ''Usuario eliminado''),
                   emit (UserDeleted (uid u)) (s\<lparr>user_docs := remove1 u (user_docs s)\<rparr>)))"

declare login_def [handler_defs] get_users_def [handler_defs] post_user_def [handler_defs]
  delete_user_def [handler_defs]

subsection \<open>The invariant of the user collection\<close>

text \<open>
  What the schema and the indexes guarantee of every stored user: distinct ids below
  the id counter, distinct names and identifiers, non-empty name and identifier.
\<close>

definition users_inv :: "srv \<Rightarrow> bool" where
  "users_inv s \<longleftrightarrow>
     distinct (map uid (user_docs s)) \<and> distinct (map user_name (user_docs s)) \<and>
     distinct (map user_identifier (user_docs s)) \<and>
     (\<forall>u \<in> set (user_docs s). uid u < next_uid s \<and> user_name u \<noteq> [] \<and> user_identifier u \<noteq> [])"

lemma required_Nil_iff: "required p v = [] \<longleftrightarrow> (\<exists>x. v = Some x \<and> x \<noteq> [])"
  by (auto simp: required_def split: option.splits)

lemma new_user_Inr:
  "new_user b i = Inr u \<Longrightarrow>
   uid u = i \<and> ub_name b = Some (user_name u) \<and> user_name u \<noteq> [] \<and>
   ub_identifier b = Some (user_identifier u) \<and> user_identifier u \<noteq> []"
  by (auto simp: new_user_def Let_def required_Nil_iff split: if_splits)

lemma insert_user_Inr:
  "insert_user us u = Inr us' \<Longrightarrow>
   us' = us @ [u] \<and> user_name u \<notin> user_name ` set us \<and> user_identifier u \<notin> user_identifier ` set us"
  by (auto simp: insert_user_def split: if_splits)

lemma users_inv_emit [simp]: "users_inv (emit ev s) = users_inv s"
  by (simp add: users_inv_def emit_def)

lemma find_uid_Some:
  "find (\<lambda>u. uid u = i) us = Some u \<Longrightarrow> u \<in> set us \<and> uid u = i"
  by (auto simp: find_Some_iff)

lemma users_inv_remove1:
  "users_inv s \<Longrightarrow> users_inv (s\<lparr>user_docs := remove1 u (user_docs s)\<rparr>)"
  by (auto simp: users_inv_def dest: subsetD [OF set_remove1_subset])

lemma post_user_users_inv:
  assumes "users_inv s" and "post_user b s = (r, s')"
  shows "users_inv s'"
proof (cases "\<exists>u us. new_user b (next_uid s) = Inr u \<and> insert_user (user_docs s) u = Inr us")
  case True
  then obtain u us where nu: "new_user b (next_uid s) = Inr u" and iu: "insert_user (user_docs s) u = Inr us"
    by blast
  with assms(2) have s': "s' = emit (UserAdded u) (s\<lparr>user_docs := us, next_uid := Suc (next_uid s)\<rparr>)"
    by (simp add: post_user_def)
  from nu iu have "us = user_docs s @ [u]" "uid u = next_uid s" "user_name u \<noteq> []"
    "user_identifier u \<noteq> []" "user_name u \<notin> user_name ` set (user_docs s)"
    "user_identifier u \<notin> user_identifier ` set (user_docs s)"
    by (auto dest: new_user_Inr insert_user_Inr)
  with assms(1) show ?thesis
    unfolding s' users_inv_emit by (fastforce simp: users_inv_def less_Suc_eq)
next
  case False
  with assms(2) have "s' = s"
    by (auto simp: post_user_def split: sum.splits)
  with assms(1) show ?thesis by simp
qed

lemma delete_user_users_inv:
  "users_inv s \<Longrightarrow> delete_user i s = (r, s') \<Longrightarrow> users_inv s'"
  by (auto simp: delete_user_def users_inv_remove1 split: option.splits)

lemma create_default_admin_users_inv:
  "users_inv s \<Longrightarrow> users_inv (create_default_admin s)"
  by (auto simp: create_default_admin_def users_inv_def)

subsection \<open>Properties of the user routes\<close>

text \<open>
  C15.  Every route that writes the user collection keeps its invariant: creating the
  default administrator, creating a user (whatever the body) and deleting one (whatever
  the id).
\<close>

theorem user_routes_preserve_inv:
  assumes "users_inv s"
  shows "users_inv (create_default_admin s) \<and> users_inv (snd (post_user b s)) \<and>
         users_inv (snd (delete_user i s))"
  using assms create_default_admin_users_inv [OF assms]
    post_user_users_inv [OF assms prod.collapse [symmetric]]
    delete_user_users_inv [OF assms prod.collapse [symmetric]] by blast

theorem user_routes_preserve_inv_witness:
  "users_inv srv_init \<and>
   users_inv (create_default_admin srv_init) \<and>
   users_inv (snd (post_user \<lparr>ub_name = Some ''Ana'', ub_identifier = Some ''77'', ub_role = None\<rparr> srv_init)) \<and>
   users_inv (snd (delete_user 0 srv_init))"
proof -
  have inv: "users_inv srv_init" by (simp add: users_inv_def srv_init_def)
  then show ?thesis using user_routes_preserve_inv [OF inv] by simp
qed

text \<open>
  C16.  Login by identifier: on a collection satisfying the invariant, the login route
  answers 200 with exactly the user holding the identifier, and the specific 404
  message ``Identificador no encontrado'' exactly when no user holds it (spec \<section>7).
\<close>

theorem login_correct:
  assumes "users_inv s"
  shows "(login i s = Inr (200, PUser u) \<longleftrightarrow> u \<in> set (user_docs s) \<and> user_identifier u = i) \<and>
         (login i s = Inl (NotFound ''Identificador no encontrado'') \<longleftrightarrow>
            i \<notin> user_identifier ` set (user_docs s))"
proof -
  from assms have d: "distinct (map user_identifier (user_docs s))" by (simp add: users_inv_def)
  have "login i s = Inr (200, PUser u) \<longleftrightarrow> find (\<lambda>x. user_identifier x = i) (user_docs s) = Some u"
    by (auto simp: login_def split: option.splits)
  also have "\<dots> \<longleftrightarrow> u \<in> set (user_docs s) \<and> user_identifier u = i"
    using d by (rule find_key_distinct)
  finally have 1: "login i s = Inr (200, PUser u) \<longleftrightarrow> u \<in> set (user_docs s) \<and> user_identifier u = i" .
  have "login i s = Inl (NotFound ''Identificador no encontrado'') \<longleftrightarrow>
      find (\<lambda>x. user_identifier x = i) (user_docs s) = None"
    by (auto simp: login_def split: option.splits)
  also have "\<dots> \<longleftrightarrow> i \<notin> user_identifier ` set (user_docs s)"
    by (auto simp: find_None_iff)
  finally show ?thesis using 1 by blast
qed

theorem login_correct_witness:
  "let s = create_default_admin srv_init;
       u = \<lparr>uid = 0, user_name = ''Gustavo'', user_identifier = ''3434'', role = Admin\<rparr>
   in users_inv s \<and>
      (login ''3434'' s = Inr (200, PUser u) \<longleftrightarrow> u \<in> set (user_docs s) \<and> user_identifier u = ''3434'') \<and>
      (login ''3434'' s = Inl (NotFound ''Identificador no encontrado'') \<longleftrightarrow>
         ''3434'' \<notin> user_identifier ` set (user_docs s))"
proof -
  have inv: "users_inv (create_default_admin srv_init)"
    by (simp add: users_inv_def srv_init_def create_default_admin_def)
  show ?thesis unfolding Let_def using inv login_correct [OF inv] by blast
qed

text \<open>
  C18.  A user created without a role gets the schema default \<open>viewer\<close>; the new
  user, with the next id, is appended, broadcast as \<open>userAdded\<close> and answered with
  201.  A name or identifier already taken is refused with 400 and changes nothing.
\<close>

theorem post_user_default_role:
  assumes "ub_name b = Some n" and "n \<noteq> []" and "ub_identifier b = Some i" and "i \<noteq> []"
    and "ub_role b = None"
  shows "post_user b s =
           (if n \<in> user_name ` set (user_docs s) then (Inl (BadRequest (DuplicateKey ''name'')), s)
            else if i \<in> user_identifier ` set (user_docs s)
            then (Inl (BadRequest (DuplicateKey ''identifier'')), s)
            else let u = \<lparr>uid = next_uid s, user_name = n, user_identifier = i, role = Viewer\<rparr> in
                 (Inr (201, PUser u),
                  s\<lparr>user_docs := user_docs s @ [u], emitted := emitted s @ [UserAdded u],
                    next_uid := Suc (next_uid s)\<rparr>))"
  using assms
  by (simp add: post_user_def new_user_def required_def role_errors_def insert_user_def emit_def Let_def)

theorem post_user_default_role_witness:
  "post_user \<lparr>ub_name = Some ''Ana'', ub_identifier = Some ''77'', ub_role = None\<rparr> (create_default_admin srv_init) =
     (Inr (201, PUser \<lparr>uid = 1, user_name = ''Ana'', user_identifier = ''77'', role = Viewer\<rparr>),
      \<lparr>user_docs = [\<lparr>uid = 0, user_name = ''Gustavo'', user_identifier = ''3434'', role = Admin\<rparr>,
                    \<lparr>uid = 1, user_name = ''Ana'', user_identifier = ''77'', role = Viewer\<rparr>],
       entry_docs = [], log_docs = [],
       emitted = [UserAdded \<lparr>uid = 1, user_name = ''Ana'', user_identifier = ''77'', role = Viewer\<rparr>],
       next_uid = 2\<rparr>)"
  by (subst post_user_default_role [where n = "''Ana''" and i = "''77''"])
     (simp_all add: create_default_admin_def srv_init_def Let_def numeral_2_eq_2)

end
