(* ===== verification/Api.thy ===== *)
theory Api
  imports Users
begin

text \<open>
  The HTTP interface between the client and the server: one constructor per request
  the client code sends (\<open>fetch\<close> calls of \<open>src/public/cuadrante.js\<close>) or the
  server routes of \<open>src/server.js\<close> accept.  Path parameters and JSON bodies are
  carried as the values the two sides agree on.
\<close>

datatype request =
    ReqLogin string
  | ReqGetUsers
  | ReqPostUser user_body
  | ReqDeleteUser nat
  | ReqGetMonth int int
  | ReqGetEntry date_key
  | ReqPostEntry entry_body
  | ReqPutEntry date_key entry_body
  | ReqDeleteEntry date_key
  | ReqGetLogs int int
  | ReqUpload "string option"

text \<open>
  \<open>response.ok\<close> of the Fetch API: a status in 200-299.  Every success reply of the
  server has status 200 or 201.
\<close>

definition response_ok :: "reply \<Rightarrow> bool" where
  "response_ok r = (case r of Inl _ \<Rightarrow> False | Inr (c, _) \<Rightarrow> 200 \<le> c \<and> c < 300)"

end
