(* ===== verification/Report.thy ===== *)
theory Report
  imports Change_Log
begin

text \<open>
  The client's change report (\<open>showReport\<close>, \<open>src/public/cuadrante.js\<close> lines
  319-356).  The client receives the records of \<open>GET /api/logs\<close> as parsed JSON:
  each snapshot is an object whose keys are the paths the stored document has (the
  optional strings only when set), and values are strings or arrays.  The report is
  the list of rendered items, the message for an empty month, or the error message
  the \<open>catch\<close> shows when the loop throws.  Dates are kept as milliseconds (their
  \<open>toLocaleString\<close> rendering is not modelled) and the HTML markup is replaced by
  the data it shows.
\<close>

subsection \<open>Snapshots as parsed JSON\<close>

datatype jval = JStr string | JArr "string list" | JUndef

text \<open>
  The keys of a snapshot other than \<open>_id\<close> and \<open>__v\<close> (which the loop skips), in
  schema order.
\<close>

definition opt_field :: "string \<Rightarrow> string option \<Rightarrow> (string \<times> jval) list" where
  "opt_field k v = (case v of None \<Rightarrow> [] | Some s \<Rightarrow> [(k, JStr s)])"

definition snapshot :: "entry \<Rightarrow> (string \<times> jval) list" where
  "snapshot e =
     [(''dateKey'', JStr (dateKey e))] @ opt_field ''name'' (name e) @
     opt_field ''address'' (address e) @ opt_field ''phone'' (phone e) @
     opt_field ''editor'' (editor e) @ [(''imageUrls'', JArr (imageUrls e))]"

text \<open>Property access \<open>obj[key]\<close>: \<open>undefined\<close> for a missing key.\<close>

definition get_prop :: "(string \<times> jval) list \<Rightarrow> string \<Rightarrow> jval" where
  "get_prop obj k = (case map_of obj k of None \<Rightarrow> JUndef | Some v \<Rightarrow> v)"

text \<open>
  \<open>a !== b\<close> on parsed JSON values: strings by value; two arrays are distinct objects
  even with equal contents, as every parse creates fresh ones.
\<close>

fun strict_ne :: "jval \<Rightarrow> jval \<Rightarrow> bool" where
  "strict_ne (JStr a) (JStr b) = (a \<noteq> b)"
| "strict_ne JUndef JUndef = False"
| "strict_ne _ _ = True"

text \<open>\<open>Array.prototype.join(',')\<close>, which is what \<open>String\<close> does to an array.\<close>

fun array_join :: "string list \<Rightarrow> string" where
  "array_join [] = []"
| "array_join [x] = x"
| "array_join (x # y # zs) = x @ '','' @ array_join (y # zs)"

text \<open>The string a template literal makes of a value.\<close>

fun js_string :: "jval \<Rightarrow> string" where
  "js_string (JStr s) = s"
| "js_string (JArr xs) = array_join xs"
| "js_string JUndef = ''undefined''"

subsection \<open>The report\<close>

text \<open>
  The loop \<open>for (const key in log.newData)\<close> of an update record: a key whose new
  value differs from the old one adds a line; reading the old value of \<open>null\<close>
  throws (\<open>None\<close>).  A missing \<open>newData\<close> iterates over nothing.
\<close>

fun diff_keys :: "(string \<times> jval) list \<Rightarrow> (string \<times> jval) list option \<Rightarrow>
    (string \<times> string \<times> string) list option" where
  "diff_keys [] p = Some []"
| "diff_keys ((k, v) # kvs) p =
     (case p of
        None \<Rightarrow> None
      | Some obj \<Rightarrow>
          map_option (\<lambda>rest. (if strict_ne v (get_prop obj k) then [(k, js_string (get_prop obj k), js_string v)] else [])
                             @ rest)
            (diff_keys kvs p))"

datatype change_text =
    Created date_key
  | Deleted date_key
  | Updated date_key "(string \<times> string \<times> string) list"

record report_line =
  ri_date :: millis
  ri_user :: string
  ri_action :: action
  ri_changes :: change_text

text \<open>One item of the list (lines 331-347), or \<open>None\<close> when it throws.\<close>

definition report_item :: "changelog \<Rightarrow> report_line option" where
  "report_item l =
     map_option (\<lambda>c. \<lparr>ri_date = date l, ri_user = user l, ri_action = action l, ri_changes = c\<rparr>)
       (case action l of
          Create \<Rightarrow> Some (Created (entryDateKey l))
        | Delete \<Rightarrow> Some (Deleted (entryDateKey l))
        | Update \<Rightarrow> map_option (Updated (entryDateKey l))
                     (case newData l of None \<Rightarrow> Some []
                      | Some n \<Rightarrow> diff_keys (snapshot n) (map_option snapshot (previousData l))))"

datatype report = NoChanges | Items "report_line list" | ReportError

text \<open>
  \<open>showReport\<close> on the response of \<open>GET /api/logs/:year/:month\<close>: an error reply
  is a JSON object, not an array, and iterating over it throws as well.
\<close>

definition show_report :: "'e + nat \<times> payload \<Rightarrow> report" where
  "show_report r =
     (case r of
        Inr (_, PLogs logs) \<Rightarrow>
          if length logs = 0 then NoChanges
          else (case those (map report_item logs) of None \<Rightarrow> ReportError | Some items \<Rightarrow> Items items)
      | _ \<Rightarrow> ReportError)"

subsection \<open>Facts\<close>

lemma snapshot_not_Nil [simp]: "snapshot e \<noteq> []"
  by (simp add: snapshot_def)

lemma diff_keys_None_prev: "kvs \<noteq> [] \<Longrightarrow> diff_keys kvs None = None"
  by (cases kvs) auto

lemma those_None_iff: "those xs = None \<longleftrightarrow> None \<in> set xs"
  by (induction xs) (auto split: option.splits)

lemma report_item_update_no_prev:
  "action l = Update \<Longrightarrow> previousData l = None \<Longrightarrow> newData l \<noteq> None \<Longrightarrow> report_item l = None"
  by (auto simp: report_item_def diff_keys_None_prev)

lemma show_report_item_fails:
  "l \<in> set logs \<Longrightarrow> report_item l = None \<Longrightarrow> show_report (Inr (c, PLogs logs)) = ReportError"
proof -
  assume "l \<in> set logs" and "report_item l = None"
  then have "None \<in> report_item ` set logs" and "length logs \<noteq> 0"
    by (metis image_eqI, auto)
  then have "those (map report_item logs) = None" and "length logs \<noteq> 0"
    by (simp_all add: those_None_iff)
  then show ?thesis by (simp add: show_report_def)
qed

lemma diff_keys_self:
  "(\<forall>(k, v) \<in> set kvs. get_prop obj k = v) \<Longrightarrow>
   diff_keys kvs (Some obj) = Some [(k, js_string v, js_string v). (k, v) \<leftarrow> kvs, strict_ne v v]"
  by (induction kvs) auto

lemma strict_ne_self: "strict_ne v v \<longleftrightarrow> (\<exists>xs. v = JArr xs)"
  by (cases v) auto

lemma prop_snapshot_all: "\<forall>(k, v) \<in> set (snapshot e). get_prop (snapshot e) k = v"
  by (simp add: snapshot_def opt_field_def get_prop_def split: option.splits)

lemma snapshot_strict_ne_self:
  "[(k, js_string v, js_string v). (k, v) \<leftarrow> snapshot e, strict_ne v v] =
   [(''imageUrls'', js_string (JArr (imageUrls e)), js_string (JArr (imageUrls e)))]"
  by (auto simp: snapshot_def opt_field_def strict_ne_self split: option.splits)

subsection \<open>Properties of the report\<close>

text \<open>
  C9.  An update record whose \<open>previousData\<close> is null (what every \<open>PUT\<close> that
  creates an entry writes) makes the whole report of its month fail: reading
  \<open>log.previousData[key]\<close> throws on the first key, and the client shows only
  ``Error al cargar el informe'' instead of any item.
\<close>

theorem update_without_previous_breaks_report:
  assumes "l \<in> set logs" and "action l = Update" and "previousData l = None"
    and "newData l \<noteq> None"
  shows "show_report (Inr (c, PLogs logs)) = ReportError"
  using assms(1) report_item_update_no_prev [OF assms(2-4)] by (rule show_report_item_fails)

theorem update_without_previous_breaks_report_witness:
  "show_report (Inr (200::nat, PLogs
     [\<lparr>date = 5, user = ''Bob'', action = Delete, entryDateKey = ''2025-09-17'',
       previousData = Some \<lparr>dateKey = ''2025-09-17'', name = None, address = None, phone = None,
                            editor = None, imageUrls = []\<rparr>, newData = None\<rparr>,
      \<lparr>date = 3, user = ''Bob'', action = Update, entryDateKey = ''2025-09-18'', previousData = None,
       newData = Some \<lparr>dateKey = ''2025-09-18'', name = Some ''Ana'', address = None, phone = None,
                       editor = Some ''Bob'', imageUrls = []\<rparr>\<rparr>])) = ReportError"
proof -
  let ?l = "\<lparr>date = 3, user = ''Bob'', action = Update, entryDateKey = ''2025-09-18'', previousData = None,
       newData = Some \<lparr>dateKey = ''2025-09-18'', name = Some ''Ana'', address = None, phone = None,
                       editor = Some ''Bob'', imageUrls = []\<rparr>\<rparr>"
  show ?thesis by (rule update_without_previous_breaks_report [where l = ?l]) simp_all
qed

text \<open>
  C17.  A record of a write that changed nothing (equal snapshots, as a repeated
  \<open>PUT\<close> produces) is reported as a change of \<open>imageUrls\<close> from the list to the
  same list, because two parsed arrays are never \<open>===\<close>; every other path is
  correctly reported unchanged.
\<close>

theorem identical_snapshots_report_images:
  "report_item \<lparr>date = t, user = u, action = Update, entryDateKey = k,
                previousData = Some e, newData = Some e\<rparr> =
   Some \<lparr>ri_date = t, ri_user = u, ri_action = Update,
         ri_changes = Updated k [(''imageUrls'', array_join (imageUrls e),
                                  array_join (imageUrls e))]\<rparr>"
proof -
  have "diff_keys (snapshot e) (Some (snapshot e)) =
        Some [(k, js_string v, js_string v). (k, v) \<leftarrow> snapshot e, strict_ne v v]"
    using prop_snapshot_all by (rule diff_keys_self)
  then show ?thesis by (simp add: report_item_def snapshot_strict_ne_self)
qed

end
