(* ===== verification/Client_View.thy ===== *)
theory Client_View
  imports Api Calendar_Keys Report
begin

text \<open>
  The browser client (\<open>src/public/cuadrante.js\<close>).  Its module-level state
  (lines 39-43, plus the date stored on the shared file input, line 288) is the record
  \<open>client\<close>; every event handler is a function from the state to the new state and
  the effects it starts: requests (each tagged with the continuation that will handle
  its reply, since the code awaits them or not), alerts, and the report it shows.  The
  browser's time zone is the fixed offset \<open>client_tz\<close>.  Messages shown to the
  user are named by constructors; the Spanish texts they stand for are given beside
  them.  The DOM construction itself is not modelled, only the data it displays.
\<close>

subsection \<open>State, messages and effects\<close>

record client =
  loggedInUser :: user
  users :: "user list"
  currentMonth :: int
  currentYear :: int
  monthData :: "date_key \<rightharpoonup> entry"
  userModalOpen :: bool
  uploadDate :: "date_key option"
  client_tz :: int

datatype notice =
    LoginEmpty \<comment> \<open>'El identificador no puede estar vacio.'\<close>
  | LoginNotFound \<comment> \<open>'Identificador no encontrado.'\<close>
  | LoginServerError \<comment> \<open>'Error en el servidor.'\<close>
  | UserFieldsRequired \<comment> \<open>'El nombre y el identificador son obligatorios.'\<close>
  | AddUserFailed \<comment> \<open>'No se pudo crear el usuario.'\<close>
  | DeleteUserFailed \<comment> \<open>'No se pudo eliminar el usuario.'\<close>
  | NoUploadPermission \<comment> \<open>'No tienes permiso para subir imagenes.'\<close>
  | UploadFailed \<comment> \<open>'Error al subir la imagen: ...'\<close>
  | NoDeletePermission \<comment> \<open>'No tienes permiso para eliminar imagenes.'\<close>

text \<open>What the code does with the reply of a request it sends.\<close>

datatype cont =
    KLoadUsers | KLoadData | KAddUser | KDeleteUser | KSave | KUpload date_key | KReport

datatype effect = Send cont request | Alert notice | ShowReport report

text \<open>The three editable text paths of a cell (\<open>data-field\<close>, lines 296-298).\<close>

datatype field = FName | FAddress | FPhone

subsection \<open>Helpers of the handlers\<close>

text \<open>\<open>String.prototype.trim\<close> on the ASCII white space.\<close>

definition js_space :: "char \<Rightarrow> bool" where
  "js_space ch \<longleftrightarrow> of_char ch \<in> {9, 10, 11, 12, 13, 32 :: nat}"

definition trim :: "string \<Rightarrow> string" where
  "trim s = rev (dropWhile js_space (rev (dropWhile js_space s)))"

text \<open>
  \<open>renderCalendar(currentYear, currentMonth)\<close> (lines 189-193): the only state it
  changes is \<open>monthData\<close>, through the reply of the month query it sends.
\<close>

definition render :: "client \<Rightarrow> effect list" where
  "render c = [Send KLoadData (ReqGetMonth (currentYear c) (currentMonth c + 1))]"

text \<open>
  The month test of the socket listeners (lines 520-521 and 528-529):
  \<open>new Date(dateKey)\<close> read back with the local \<open>getFullYear\<close> and
  \<open>getMonth\<close>; an invalid date compares unequal to everything.
\<close>

definition shows_month :: "client \<Rightarrow> date_key \<Rightarrow> bool" where
  "shows_month c k =
     (case new_date_string k of
        None \<Rightarrow> False
      | Some t \<Rightarrow> get_full_year (client_tz c) t = currentYear c \<and>
                  get_month (client_tz c) t = currentMonth c)"

text \<open>
  The object a cell edit starts from (lines 434 and 461): the cached entry, or a fresh
  object with empty strings and no editor.
\<close>

definition default_day :: "date_key \<Rightarrow> entry" where
  "default_day k = \<lparr>dateKey = k, name = Some [], address = Some [], phone = Some [],
     editor = None, imageUrls = []\<rparr>"

definition day_data :: "client \<Rightarrow> date_key \<Rightarrow> entry" where
  "day_data c k = (case monthData c k of Some e \<Rightarrow> e | None \<Rightarrow> default_day k)"

fun set_field :: "field \<Rightarrow> string \<Rightarrow> entry \<Rightarrow> entry" where
  "set_field FName v e = e\<lparr>name := Some v\<rparr>"
| "set_field FAddress v e = e\<lparr>address := Some v\<rparr>"
| "set_field FPhone v e = e\<lparr>phone := Some v\<rparr>"

text \<open>\<open>JSON.stringify(dayData)\<close> as a request body: paths holding \<open>undefined\<close> are left out.\<close>

definition body_of :: "entry \<Rightarrow> entry_body" where
  "body_of e = \<lparr>b_dateKey = Some (dateKey e), b_name = name e, b_address = address e,
     b_phone = phone e, b_editor = editor e, b_imageUrls = Some (imageUrls e)\<rparr>"

text \<open>
  The edited object is the one cached in \<open>monthData\<close> when there is one, so the edit
  shows in the cache; a fresh default object is not stored.
\<close>

definition store_day :: "client \<Rightarrow> date_key \<Rightarrow> entry \<Rightarrow> client" where
  "store_day c k e = (if monthData c k = None then c else c\<lparr>monthData := (monthData c)(k \<mapsto> e)\<rparr>)"

text \<open>\<open>saveData(dateKey, data)\<close> (lines 141-151): a \<open>PUT\<close> of the whole object.\<close>

definition save_data :: "date_key \<Rightarrow> entry \<Rightarrow> effect" where
  "save_data k e = Send KSave (ReqPutEntry k (body_of e))"

text \<open>\<open>loadData\<close>'s \<open>reduce\<close> (lines 130-133): later entries overwrite earlier ones.\<close>

definition entries_map :: "entry list \<Rightarrow> date_key \<rightharpoonup> entry" where
  "entries_map es = fold (\<lambda>e m. m(dateKey e \<mapsto> e)) es Map.empty"

subsection \<open>Login and start-up\<close>

text \<open>\<open>handleLogin\<close>, before the request (lines 48-55).\<close>

definition login_submit :: "string \<Rightarrow> notice + request" where
  "login_submit input = (let i = trim input in if i = [] then Inl LoginEmpty else Inr (ReqLogin i))"

text \<open>\<open>handleLogin\<close>, on the reply (lines 63-76): a 404 has its own message.\<close>

definition login_reply :: "reply \<Rightarrow> notice + user" where
  "login_reply r =
     (case r of
        Inl err \<Rightarrow> Inl (if status_of err = 404 then LoginNotFound else LoginServerError)
      | Inr (_, PUser u) \<Rightarrow> Inr u
      | Inr _ \<Rightarrow> Inl LoginServerError)"

text \<open>
  \<open>mainAppInit\<close> (lines 360-377 and 476) for the user logged in, with the month and
  year read from the clock when the page loaded (lines 41-42): it loads the user list
  and renders the current month.
\<close>

definition main_app_init :: "int \<Rightarrow> millis \<Rightarrow> user \<Rightarrow> client \<times> effect list" where
  "main_app_init tz now u =
     (let c = \<lparr>loggedInUser = u, users = [], currentMonth = get_month tz now,
               currentYear = get_full_year tz now, monthData = Map.empty, userModalOpen = False,
               uploadDate = None, client_tz = tz\<rparr>
      in (c, Send KLoadUsers ReqGetUsers # render c))"

text \<open>\<open>applyPermissions\<close> (lines 155-160): only an admin sees the user and report buttons.\<close>

definition admin_controls_visible :: "client \<Rightarrow> bool" where
  "admin_controls_visible c \<longleftrightarrow> role (loggedInUser c) = Admin"

subsection \<open>Replies\<close>

text \<open>
  What each continuation does with its reply: \<open>loadUsers\<close> (lines 91-98),
  \<open>loadData\<close> (126-139), \<open>addUser\<close> (100-112), \<open>deleteUser\<close> (114-124),
  \<open>saveData\<close> (141-151, which never looks at the status), the upload (451-473) and
  \<open>showReport\<close> (319-356).  A reply of the wrong shape makes the code throw inside
  its \<open>try\<close>, which leaves the state as it is.
\<close>

fun on_reply :: "cont \<Rightarrow> reply \<Rightarrow> client \<Rightarrow> client \<times> effect list" where
  "on_reply KLoadUsers r c =
     (case r of Inr (_, PUsers us) \<Rightarrow> (c\<lparr>users := us\<rparr>, []) | _ \<Rightarrow> (c, []))"
| "on_reply KLoadData r c =
     (case r of Inr (_, PEntries es) \<Rightarrow> (c\<lparr>monthData := entries_map es\<rparr>, []) | _ \<Rightarrow> (c, []))"
| "on_reply KAddUser r c = (c, if response_ok r then [] else [Alert AddUserFailed])"
| "on_reply KDeleteUser r c = (c, if response_ok r then [] else [Alert DeleteUserFailed])"
| "on_reply KSave r c = (c, [])"
| "on_reply (KUpload k) r c =
     (case r of
        Inr (_, PImageUrl url) \<Rightarrow>
          (let d = day_data c k;
               d' = d\<lparr>imageUrls := imageUrls d @ [url], editor := Some (user_name (loggedInUser c))\<rparr>
           in (store_day c k d', [save_data k d']))
      | _ \<Rightarrow> (c, [Alert UploadFailed]))"
| "on_reply KReport r c = (c, [ShowReport (show_report r)])"

subsection \<open>User interface events\<close>

text \<open>The month and year selectors (lines 379-387).\<close>

definition change_month :: "int \<Rightarrow> client \<Rightarrow> client \<times> effect list" where
  "change_month m c = (let c' = c\<lparr>currentMonth := m\<rparr> in (c', render c'))"

definition change_year :: "int \<Rightarrow> client \<Rightarrow> client \<times> effect list" where
  "change_year y c = (let c' = c\<lparr>currentYear := y\<rparr> in (c', render c'))"

text \<open>The report button (lines 398-401).\<close>

definition report_click :: "client \<Rightarrow> effect list" where
  "report_click c = [Send KReport (ReqGetLogs (currentYear c) (currentMonth c + 1))]"

text \<open>The user dialog (lines 389-396) and its list (\<open>renderUserList\<close>, 162-187):
  each user with whether a delete button is shown (never for oneself).\<close>

definition set_user_modal :: "bool \<Rightarrow> client \<Rightarrow> client" where
  "set_user_modal b c = c\<lparr>userModalOpen := b\<rparr>"

definition user_list_view :: "client \<Rightarrow> (user \<times> bool) list" where
  "user_list_view c = map (\<lambda>u. (u, uid (loggedInUser c) \<noteq> uid u)) (users c)"

text \<open>The add-user button (lines 407-420); the role is the selector's value.\<close>

definition add_user_click :: "string \<Rightarrow> string \<Rightarrow> string \<Rightarrow> effect list" where
  "add_user_click n i r =
     (let n' = trim n; i' = trim i in
      if n' \<noteq> [] \<and> i' \<noteq> []
      then [Send KAddUser (ReqPostUser \<lparr>ub_name = Some n', ub_identifier = Some i', ub_role = Some r\<rparr>)]
      else [Alert UserFieldsRequired])"

text \<open>A delete button of the list (lines 175-179), after the confirmation dialog.\<close>

definition delete_user_click :: "bool \<Rightarrow> user \<Rightarrow> effect list" where
  "delete_user_click confirmed u = (if confirmed then [Send KDeleteUser (ReqDeleteUser (uid u))] else [])"

text \<open>
  The \<open>blur\<close> listener of the calendar (lines 422-440): a viewer's edit is ignored;
  otherwise the edited path and the editor are set on the day object and the whole
  object is sent, without waiting for the reply.
\<close>

definition blur :: "date_key \<Rightarrow> field \<Rightarrow> string \<Rightarrow> client \<Rightarrow> client \<times> effect list" where
  "blur k f v c =
     (if role (loggedInUser c) = Viewer then (c, [])
      else let d = (set_field f v (day_data c k))\<lparr>editor := Some (user_name (loggedInUser c))\<rparr>
           in (store_day c k d, [save_data k d]))"

text \<open>On a day without a cached entry a blur leaves the state as it is.\<close>

lemma blur_uncached:
  assumes "role (loggedInUser c) \<noteq> Viewer" "monthData c k = None"
  shows "blur k f v c =
           (c, [Send KSave (ReqPutEntry k (body_of ((set_field f v (default_day k))
                  \<lparr>editor := Some (user_name (loggedInUser c))\<rparr>)))])"
  using assms by (simp add: blur_def day_data_def store_day_def save_data_def)

text \<open>The upload button of a cell (lines 285-293).\<close>

definition upload_click :: "date_key \<Rightarrow> client \<Rightarrow> client \<times> effect list" where
  "upload_click k c =
     (if role (loggedInUser c) \<noteq> Viewer then (c\<lparr>uploadDate := Some k\<rparr>, [])
      else (c, [Alert NoUploadPermission]))"

text \<open>A file chosen in the file input (lines 443-456): the date is read before the upload.\<close>

definition upload_change :: "string option \<Rightarrow> client \<Rightarrow> effect list" where
  "upload_change file c =
     (case (file, uploadDate c) of
        (Some f, Some k) \<Rightarrow> if k = [] then [] else [Send (KUpload k) (ReqUpload (Some f))]
      | _ \<Rightarrow> [])"

text \<open>\<open>deleteImage\<close> (lines 479-498), after the confirmation dialog.\<close>

definition delete_image :: "bool \<Rightarrow> date_key \<Rightarrow> string \<Rightarrow> client \<Rightarrow> client \<times> effect list" where
  "delete_image confirmed k url c =
     (if role (loggedInUser c) = Viewer then (c, [Alert NoDeletePermission])
      else if \<not> confirmed then (c, [])
      else case monthData c k of
        None \<Rightarrow> (c, [])
      | Some d \<Rightarrow>
          (let d' = d\<lparr>imageUrls := filter (\<lambda>x. x \<noteq> url) (imageUrls d),
                       editor := Some (user_name (loggedInUser c))\<rparr>
           in (c\<lparr>monthData := (monthData c)(k \<mapsto> d')\<rparr>, [save_data k d'])))"

subsection \<open>Socket events\<close>

text \<open>The four listeners (lines 505-533).\<close>

fun on_event :: "event \<Rightarrow> client \<Rightarrow> client \<times> effect list" where
  "on_event (UserAdded u) c = (c\<lparr>users := users c @ [u]\<rparr>, [])"
| "on_event (UserDeleted i) c = (c\<lparr>users := filter (\<lambda>u. uid u \<noteq> i) (users c)\<rparr>, [])"
| "on_event (CalendarEntryUpdated e) c =
     (if shows_month c (dateKey e)
      then let c' = c\<lparr>monthData := (monthData c)(dateKey e \<mapsto> e)\<rparr> in (c', render c')
      else (c, []))"
| "on_event (CalendarEntryDeleted k) c =
     (if shows_month c k
      then let c' = c\<lparr>monthData := (monthData c)(k := None)\<rparr> in (c', render c')
      else (c, []))"

subsection \<open>The user interface as a whole\<close>

text \<open>
  The controls a user can operate, each with the handler it runs.  A control that is
  hidden cannot be operated: the user and report buttons only for an admin
  (\<open>applyPermissions\<close>), the add and delete buttons of the user dialog only while
  it is open, and no delete button for oneself (\<open>renderUserList\<close>).
\<close>

datatype ui_event =
    UChangeMonth int
  | UChangeYear int
  | UOpenUsers
  | UCloseUsers
  | UAddUser string string string
  | UDeleteUser bool user
  | UReport
  | UBlur date_key field string
  | UUploadClick date_key
  | UUploadChange "string option"
  | UDeleteImage bool date_key string

fun ui_step :: "ui_event \<Rightarrow> client \<Rightarrow> client \<times> effect list" where
  "ui_step (UChangeMonth m) c = change_month m c"
| "ui_step (UChangeYear y) c = change_year y c"
| "ui_step UOpenUsers c = (if admin_controls_visible c then (set_user_modal True c, []) else (c, []))"
| "ui_step UCloseUsers c = (set_user_modal False c, [])"
| "ui_step (UAddUser n i r) c = (c, if userModalOpen c then add_user_click n i r else [])"
| "ui_step (UDeleteUser b u) c =
     (c, if userModalOpen c \<and> (u, True) \<in> set (user_list_view c) then delete_user_click b u else [])"
| "ui_step UReport c = (c, if admin_controls_visible c then report_click c else [])"
| "ui_step (UBlur k f v) c = blur k f v c"
| "ui_step (UUploadClick k) c = upload_click k c"
| "ui_step (UUploadChange file) c = (c, upload_change file c)"
| "ui_step (UDeleteImage b k url) c = delete_image b k url c"

fun run_ui :: "ui_event list \<Rightarrow> client \<Rightarrow> client \<times> effect list" where
  "run_ui [] c = (c, [])"
| "run_ui (ev # evs) c =
     (let (c1, effs1) = ui_step ev c; (c2, effs2) = run_ui evs c1 in (c2, effs1 @ effs2))"

text \<open>The requests among a list of effects, and those that write on the server.\<close>

fun sent :: "effect list \<Rightarrow> request list" where
  "sent [] = []"
| "sent (Send k r # effs) = r # sent effs"
| "sent (_ # effs) = sent effs"

fun is_write :: "request \<Rightarrow> bool" where
  "is_write (ReqPostUser _) = True"
| "is_write (ReqDeleteUser _) = True"
| "is_write (ReqPostEntry _) = True"
| "is_write (ReqPutEntry _ _) = True"
| "is_write (ReqDeleteEntry _) = True"
| "is_write (ReqUpload _) = True"
| "is_write _ = False"

subsection \<open>The month test\<close>

lemma shows_month_key:
  assumes "valid_date y m d" and "- ms_per_day < client_tz c" and "client_tz c < ms_per_day"
  shows "shows_month c (date_key y m d) \<longleftrightarrow>
         (currentYear c, currentMonth c) = (if client_tz c < 0 \<and> d = 1 then prev_month y m else (y, m))"
proof -
  have "shows_month c (date_key y m d) \<longleftrightarrow>
        (get_full_year (client_tz c) (make_day y m d * ms_per_day),
         get_month (client_tz c) (make_day y m d * ms_per_day)) = (currentYear c, currentMonth c)"
    using assms(1) by (auto simp: shows_month_def new_date_string_key)
  then show ?thesis
    unfolding ym_of_local_day ym_of_key_day [OF assms] by auto
qed

subsection \<open>Viewers\<close>

definition viewer_state :: "client \<Rightarrow> bool" where
  "viewer_state c \<longleftrightarrow> role (loggedInUser c) = Viewer \<and> \<not> userModalOpen c \<and> uploadDate c = None"

lemma sent_append [simp]: "sent (xs @ ys) = sent xs @ sent ys"
  by (induction xs rule: sent.induct) auto

lemma viewer_ui_step:
  assumes "viewer_state c"
  shows "viewer_state (fst (ui_step ev c)) \<and> filter is_write (sent (snd (ui_step ev c))) = []"
  using assms
  by (cases ev) (auto simp: viewer_state_def change_month_def change_year_def render_def
      admin_controls_visible_def set_user_modal_def report_click_def blur_def upload_click_def
      upload_change_def delete_image_def Let_def split: option.splits)

lemma viewer_run_ui:
  "viewer_state c \<Longrightarrow> viewer_state (fst (run_ui evs c)) \<and> filter is_write (sent (snd (run_ui evs c))) = []"
proof (induction evs arbitrary: c)
  case Nil
  then show ?case by simp
next
  case (Cons ev evs)
  obtain c1 effs1 where s1: "ui_step ev c = (c1, effs1)" by fastforce
  from viewer_ui_step [OF Cons.prems, of ev] s1
  have "viewer_state c1" and "filter is_write (sent effs1) = []" by simp_all
  with Cons.IH [of c1] s1 show ?case by (simp add: split_beta)
qed

text \<open>The first of October 2025, the key of spec \<section>8.\<close>

lemma key_oct1: "date_key 2025 9 1 = ''2025-10-01''" by code_simp
lemma valid_oct1: "valid_date 2025 9 1"
  by (simp add: valid_date_def days_in_month_def month_start_def in_leap_year_def)
lemma ms_per_day_val: "ms_per_day = 86400000" by (simp add: ms_per_day_def)

subsection \<open>Properties of the client\<close>

text \<open>
  C5.  The month test of the socket listeners, for a browser whose offset from UTC
  is less than a day either way: an event for the key of day \<open>d\<close> of month
  \<open>m\<close> (0-based) of year \<open>y\<close> is applied (cache updated, month reloaded) exactly
  when the client shows that month, except in a zone west of UTC (negative offset),
  where the first day of a month is applied by the clients showing the month before
  and ignored by those showing its own month.
\<close>

theorem on_event_month_test:
  assumes "valid_date y m d" and "- ms_per_day < client_tz c" and "client_tz c < ms_per_day"
    and "dateKey e = date_key y m d"
  shows "on_event (CalendarEntryUpdated e) c =
           (if (currentYear c, currentMonth c) =
               (if client_tz c < 0 \<and> d = 1 then prev_month y m else (y, m))
            then (c\<lparr>monthData := (monthData c)(dateKey e \<mapsto> e)\<rparr>,
                  render (c\<lparr>monthData := (monthData c)(dateKey e \<mapsto> e)\<rparr>))
            else (c, [])) \<and>
         on_event (CalendarEntryDeleted (date_key y m d)) c =
           (if (currentYear c, currentMonth c) =
               (if client_tz c < 0 \<and> d = 1 then prev_month y m else (y, m))
            then (c\<lparr>monthData := (monthData c)(date_key y m d := None)\<rparr>,
                  render (c\<lparr>monthData := (monthData c)(date_key y m d := None)\<rparr>))
            else (c, []))"
  using shows_month_key [OF assms(1-3)] assms(4) by (simp add: Let_def)

theorem on_event_month_test_witness:
  "let c = \<lparr>loggedInUser = \<lparr>uid = 0, user_name = ''Bob'', user_identifier = ''1'', role = Editor\<rparr>,
            users = [], currentMonth = 8, currentYear = 2025, monthData = Map.empty,
            userModalOpen = False, uploadDate = None, client_tz = -18000000\<rparr>;
       e = \<lparr>dateKey = ''2025-10-01'', name = Some ''Ana'', address = None, phone = None,
            editor = Some ''Bob'', imageUrls = []\<rparr>
   in valid_date 2025 9 1 \<and> - ms_per_day < client_tz c \<and> client_tz c < ms_per_day \<and>
      dateKey e = date_key 2025 9 1 \<and>
      on_event (CalendarEntryUpdated e) c =
           (if (currentYear c, currentMonth c) =
               (if client_tz c < 0 \<and> (1::int) = 1 then prev_month 2025 9 else (2025, 9))
            then (c\<lparr>monthData := (monthData c)(dateKey e \<mapsto> e)\<rparr>,
                  render (c\<lparr>monthData := (monthData c)(dateKey e \<mapsto> e)\<rparr>))
            else (c, [])) \<and>
         on_event (CalendarEntryDeleted (date_key 2025 9 1)) c =
           (if (currentYear c, currentMonth c) =
               (if client_tz c < 0 \<and> (1::int) = 1 then prev_month 2025 9 else (2025, 9))
            then (c\<lparr>monthData := (monthData c)(date_key 2025 9 1 := None)\<rparr>,
                  render (c\<lparr>monthData := (monthData c)(date_key 2025 9 1 := None)\<rparr>))
            else (c, []))"
proof -
  let ?c = "\<lparr>loggedInUser = \<lparr>uid = 0, user_name = ''Bob'', user_identifier = ''1'', role = Editor\<rparr>,
            users = [], currentMonth = 8, currentYear = 2025, monthData = Map.empty,
            userModalOpen = False, uploadDate = None, client_tz = -18000000\<rparr>"
  let ?e = "\<lparr>dateKey = ''2025-10-01'', name = Some ''Ana'', address = None, phone = None,
            editor = Some ''Bob'', imageUrls = []\<rparr>"
  have h: "valid_date 2025 9 1" "- ms_per_day < client_tz ?c" "client_tz ?c < ms_per_day"
    "dateKey ?e = date_key 2025 9 1"
    by (simp_all add: valid_oct1 ms_per_day_val key_oct1)
  show ?thesis unfolding Let_def using h on_event_month_test [OF h] by blast
qed

text \<open>
  C14.  A viewer's client never sends a request that writes on the server (a user
  created or deleted, an entry written or deleted, a file uploaded), whatever
  sequence of controls is operated, starting from a state with the user dialog closed
  and no upload date, as after login.
\<close>

theorem viewer_never_writes:
  assumes "role (loggedInUser c) = Viewer" and "\<not> userModalOpen c" and "uploadDate c = None"
  shows "filter is_write (sent (snd (run_ui evs c))) = []"
  using assms viewer_run_ui [of c evs] by (simp add: viewer_state_def)

theorem viewer_never_writes_witness:
  "filter is_write (sent (snd (run_ui
      [UBlur ''2025-09-18'' FName ''Ana'', UUploadClick ''2025-09-18'', UUploadChange (Some ''a.png''),
       UDeleteImage True ''2025-09-18'' ''/uploads/a.png'', UOpenUsers, UAddUser ''Eve'' ''9'' ''admin'']
      (fst (main_app_init 0 0 \<lparr>uid = 3, user_name = ''Vera'', user_identifier = ''5'', role = Viewer\<rparr>))))) = []"
  by (rule viewer_never_writes) (simp_all add: main_app_init_def Let_def)

end
