(* ===== verification/Calendar_Grid.thy ===== *)
theory Calendar_Grid
  imports Client_View
begin

text \<open>
  The table \<open>renderCalendar\<close> builds once the month's data is loaded
  (\<open>src/public/cuadrante.js\<close> lines 195-317): a header of the five weekdays and
  body rows of cells.  A cell is either an \<open>other-month\<close> filler or the cell of a
  weekday of the month, with the data it displays: the day number, the three text
  paths, the editor line, the images, whether the texts are editable and whether it
  is today.  The \<open>while\<close> loop over the days of the month is the function
  \<open>grid_loop\<close>, whose termination is proved by the measure of the days left.
\<close>

subsection \<open>Cells and rows\<close>

record cell_view =
  cv_name :: string
  cv_address :: string
  cv_phone :: string
  cv_editor_text :: string
  cv_images :: "string list"
  cv_editable :: bool
  cv_today :: bool

datatype cell = OtherMonth | DayCell date_key int cell_view

text \<open>
  What a day cell shows of the cached entry (lines 232-301): missing texts as the
  empty string (\<open>value || ''\<close>), the editor line \<open>Mod. por: \<close> when the entry
  names one, the images in order; the texts are editable for editors and admins.
\<close>

definition cell_of :: "client \<Rightarrow> millis \<Rightarrow> millis \<Rightarrow> date_key \<Rightarrow> int \<Rightarrow> cell" where
  "cell_of c now t k d =
     (let od = monthData c k;
          txt = (\<lambda>f. case od of None \<Rightarrow> [] | Some e \<Rightarrow> (case f e of None \<Rightarrow> [] | Some s \<Rightarrow> s))
      in DayCell k d
           \<lparr>cv_name = txt name, cv_address = txt address, cv_phone = txt phone,
            cv_editor_text = (case txt editor of [] \<Rightarrow> [] | s \<Rightarrow> ''Mod. por: '' @ s),
            cv_images = (case od of None \<Rightarrow> [] | Some e \<Rightarrow> imageUrls e),
            cv_editable = (role (loggedInUser c) \<noteq> Viewer),
            cv_today = (local_day (client_tz c) t = local_day (client_tz c) now)\<rparr>)"

text \<open>
  The filler loop of lines 307-309: a non-empty row is completed to five cells; an
  empty one stays empty (and is still appended).
\<close>

definition pad_row :: "cell list \<Rightarrow> cell list" where
  "pad_row r = (if length r = 0 then r else r @ replicate (5 - length r) OtherMonth)"

text \<open>The values the loop reads but does not change.\<close>

record grid_ctx =
  g_client :: client
  g_now :: millis
  g_year :: int
  g_month :: int
  g_days :: int

text \<open>
  One pass of the \<open>while\<close> loop (lines 218-314) on day \<open>d\<close>: a weekday cell is
  appended to the row, after the row is pushed if it already holds five cells; on a
  Friday or on the last day the row is padded and pushed.
\<close>

definition grid_step :: "grid_ctx \<Rightarrow> int \<Rightarrow> cell list \<times> cell list list \<Rightarrow> cell list \<times> cell list list" where
  "grid_step g d st =
     (let (row, rows) = st;
          c = g_client g;
          t = new_date_local (client_tz c) (g_year g) (g_month g) d;
          w = get_day (client_tz c) t;
          k = date_key (g_year g) (g_month g) d;
          (row1, rows1) =
            (if w \<noteq> 0 \<and> w \<noteq> 6
             then (if length row = 5 then ([cell_of c (g_now g) t k d], rows @ [row])
                   else (row @ [cell_of c (g_now g) t k d], rows))
             else (row, rows))
      in if w = 5 \<or> d = g_days g then ([], rows1 @ [pad_row row1]) else (row1, rows1))"

function grid_loop :: "grid_ctx \<Rightarrow> int \<Rightarrow> cell list \<times> cell list list \<Rightarrow> cell list list" where
  "grid_loop g d st = (if d \<le> g_days g then grid_loop g (d + 1) (grid_step g d st) else snd st)"
  by pat_completeness auto
termination
  by (relation "measure (\<lambda>(g, d, st). nat (g_days g + 1 - d))") auto

declare grid_loop.simps [simp del]

text \<open>
  The body of the table (lines 205-216): the starting blanks count the days from
  Monday to the first of the month, with Sunday counted as day 7.
\<close>

definition render_grid :: "client \<Rightarrow> millis \<Rightarrow> int \<Rightarrow> int \<Rightarrow> cell list list" where
  "render_grid c now year month =
     (let tz = client_tz c;
          days = get_date tz (new_date_local tz year (month + 1) 0);
          w0 = get_day tz (new_date_local tz year month 1);
          w = (if w0 = 0 then 7 else w0)
      in grid_loop \<lparr>g_client = c, g_now = now, g_year = year, g_month = month, g_days = days\<rparr>
           1 (replicate (nat (w - 1)) OtherMonth, []))"

subsection \<open>What the loop computes\<close>

text \<open>
  The cells that are days of the month, the time value of day \<open>d\<close>, the day
  cells of the days from \<open>a\<close> on, and the shape of the rows built so far.
\<close>

definition is_day :: "cell \<Rightarrow> bool" where
  "is_day x \<longleftrightarrow> x \<noteq> OtherMonth"

definition grid_time :: "grid_ctx \<Rightarrow> int \<Rightarrow> millis" where
  "grid_time g d = new_date_local (client_tz (g_client g)) (g_year g) (g_month g) d"

definition weekday_cells :: "grid_ctx \<Rightarrow> int \<Rightarrow> cell list" where
  "weekday_cells g a =
     [cell_of (g_client g) (g_now g) (grid_time g d) (date_key (g_year g) (g_month g) d) d.
        d \<leftarrow> [a..g_days g], get_day (client_tz (g_client g)) (grid_time g d) \<notin> {0, 6}]"

definition rows_ok :: "cell list \<times> cell list list \<Rightarrow> bool" where
  "rows_ok st \<longleftrightarrow> length (fst st) \<le> 5 \<and> (\<forall>r \<in> set (snd st). length r \<in> {0, 5})"

lemmas weekday_eval = get_day_def local_day_new_date make_full_year_def make_day_def
  day_from_year_def month_start_def in_leap_year_def Let_def

subsection \<open>Loop lemmas\<close>

lemma filter_pad_row [simp]: "filter is_day (pad_row r) = filter is_day r"
  by (simp add: pad_row_def is_day_def)

lemma is_day_cell_of [simp]: "is_day (cell_of c now t k d)"
  by (simp add: cell_of_def is_day_def Let_def)

lemma grid_step_cells:
  "grid_step g d (row, rows) = (row', rows') \<Longrightarrow>
   filter is_day (concat rows' @ row') =
   filter is_day (concat rows @ row) @
   (if get_day (client_tz (g_client g)) (grid_time g d) \<notin> {0, 6}
    then [cell_of (g_client g) (g_now g) (grid_time g d) (date_key (g_year g) (g_month g) d) d] else [])"
  by (auto simp: grid_step_def grid_time_def Let_def split: if_splits)

lemma grid_step_last:
  "grid_step g (g_days g) st = (row', rows') \<Longrightarrow> row' = []"
  by (auto simp: grid_step_def Let_def split: prod.splits if_splits)

lemma upto_Cons: "a \<le> b \<Longrightarrow> [a..b] = a # [a + 1..b]"
  by (simp add: upto_rec1)

lemma weekday_cells_Cons:
  "d \<le> g_days g \<Longrightarrow> weekday_cells g d =
     (if get_day (client_tz (g_client g)) (grid_time g d) \<notin> {0, 6}
      then [cell_of (g_client g) (g_now g) (grid_time g d) (date_key (g_year g) (g_month g) d) d] else [])
     @ weekday_cells g (d + 1)"
  by (simp add: weekday_cells_def upto_Cons)

lemma weekday_cells_empty: "g_days g < d \<Longrightarrow> weekday_cells g d = []"
  by (simp add: weekday_cells_def)

lemma grid_loop_cells:
  "d \<le> g_days g \<Longrightarrow>
   filter is_day (concat (grid_loop g d st)) =
   filter is_day (concat (snd st) @ fst st) @ weekday_cells g d"
proof (induction g d st rule: grid_loop.induct)
  case (1 g d st)
  obtain row rows where st0: "st = (row, rows)" by fastforce
  obtain row' rows' where st: "grid_step g d (row, rows) = (row', rows')" by fastforce
  note cells = grid_step_cells [OF st]
  have loop: "grid_loop g d st = grid_loop g (d + 1) (row', rows')"
    using "1.prems" st st0 by (subst grid_loop.simps) simp
  show ?case
  proof (cases "d + 1 \<le> g_days g")
    case True
    with "1.IH" [OF "1.prems" True] st st0 have
      "filter is_day (concat (grid_loop g (d + 1) (row', rows'))) =
       filter is_day (concat rows' @ row') @ weekday_cells g (d + 1)" by simp
    with loop cells st0 "1.prems" show ?thesis by (simp add: weekday_cells_Cons)
  next
    case False
    with "1.prems" have d: "d = g_days g" by simp
    with st have "row' = []" by (simp add: grid_step_last)
    moreover have "grid_loop g (d + 1) (row', rows') = rows'"
      using False by (subst grid_loop.simps) simp
    ultimately show ?thesis
      using loop cells st0 "1.prems" False by (simp add: weekday_cells_Cons weekday_cells_empty)
  qed
qed

lemma length_pad_row: "length r \<le> 5 \<Longrightarrow> length (pad_row r) \<in> {0, 5}"
  by (simp add: pad_row_def)

lemma grid_step_rows_ok: "rows_ok st \<Longrightarrow> rows_ok (grid_step g d st)"
  by (cases st) (auto simp: rows_ok_def grid_step_def Let_def pad_row_def split: if_splits)

lemma grid_loop_unroll:
  "d \<le> g_days g \<Longrightarrow> grid_loop g d st = grid_loop g (d + 1) (grid_step g d st)"
  by (subst grid_loop.simps) simp

lemma grid_loop_rows_ok:
  "rows_ok st \<Longrightarrow> \<forall>r \<in> set (grid_loop g d st). length r \<in> {0, 5}"
proof (induction g d st rule: grid_loop.induct)
  case (1 g d st)
  show ?case
  proof (cases "d \<le> g_days g")
    case True
    with "1.IH" [OF True grid_step_rows_ok [OF "1.prems"]] show ?thesis
      by (simp add: grid_loop_unroll)
  next
    case False
    with "1.prems" show ?thesis by (subst grid_loop.simps) (simp add: rows_ok_def)
  qed
qed

lemma grid_loop_prefix: "\<exists>rest. grid_loop g d st = snd st @ rest"
proof (induction g d st rule: grid_loop.induct)
  case (1 g d st)
  show ?case
  proof (cases "d \<le> g_days g")
    case True
    have "\<exists>rest. snd (grid_step g d st) = snd st @ rest"
      by (cases st) (auto simp: grid_step_def Let_def split: if_splits)
    with "1.IH" [OF True] show ?thesis by (auto simp: grid_loop_unroll [OF True])
  next
    case False
    then show ?thesis by (subst grid_loop.simps) simp
  qed
qed

lemma get_day_range: "0 \<le> get_day tz t \<and> get_day tz t < 7"
  by (simp add: get_day_def)

lemma make_day_shift: "make_day y m d = make_day y m 1 + (d - 1)"
  by (simp add: make_day_def Let_def)

lemma get_day_month_day:
  "get_day tz (new_date_local tz y m d) = (get_day tz (new_date_local tz y m 1) + (d - 1)) mod 7"
proof -
  let ?a = "make_day (make_full_year y) m 1"
  have "get_day tz (new_date_local tz y m d) = (?a + 4 + (d - 1)) mod 7"
    unfolding get_day_def local_day_new_date make_day_shift [of _ m d] by (simp add: ac_simps)
  also have "\<dots> = ((?a + 4) mod 7 + (d - 1)) mod 7" by (simp add: mod_add_left_eq)
  finally show ?thesis by (simp add: get_day_def local_day_new_date)
qed

lemma render_grid_days:
  assumes "1000 \<le> y" and "0 \<le> m" and "m < 12"
  shows "render_grid c now y m =
    grid_loop \<lparr>g_client = c, g_now = now, g_year = y, g_month = m, g_days = days_in_month y (nat m)\<rparr> 1
      (replicate (nat ((if get_day (client_tz c) (new_date_local (client_tz c) y m 1) = 0 then 7
                        else get_day (client_tz c) (new_date_local (client_tz c) y m 1)) - 1)) OtherMonth, [])"
proof -
  have "get_date (client_tz c) (new_date_local (client_tz c) y (m + 1) 0) = days_in_month y (nat (m + 1) - 1)"
    by (rule month_end_date) (use assms in simp_all)
  moreover have "nat (m + 1) - 1 = nat m" using assms(2) by simp
  ultimately show ?thesis by (simp add: render_grid_def Let_def)
qed

lemma days_in_month_ge: "0 \<le> m \<Longrightarrow> m < 12 \<Longrightarrow> 28 \<le> days_in_month y (nat m)"
  using days_in_month_bounds [of "nat m" y] by simp

text \<open>
  C19.  The body of the table shows each weekday of the month exactly once, in order,
  with the data cached for its key: the day cells, read row by row, are those of the
  days \<open>1..n\<close> of the month (\<open>n\<close> its length) that fall Monday to Friday in
  the browser's zone.
\<close>

theorem grid_day_cells:
  assumes "1000 \<le> y" and "0 \<le> m" and "m < 12"
  shows "filter is_day (concat (render_grid c now y m)) =
    [cell_of c now (new_date_local (client_tz c) y m d) (date_key y m d) d.
       d \<leftarrow> [1..days_in_month y (nat m)],
       get_day (client_tz c) (new_date_local (client_tz c) y m d) \<notin> {0, 6}]"
proof -
  define g where "g = \<lparr>g_client = c, g_now = now, g_year = y, g_month = m, g_days = days_in_month y (nat m)\<rparr>"
  have sel: "g_client g = c" "g_now g = now" "g_year g = y" "g_month g = m"
    "g_days g = days_in_month y (nat m)" by (simp_all add: g_def)
  have "1 \<le> g_days g" using days_in_month_ge [OF assms(2,3), of y] by (simp add: sel)
  note cells = grid_loop_cells [OF this]
  show ?thesis
    unfolding render_grid_days [OF assms] g_def [symmetric] cells weekday_cells_def grid_time_def sel
    by (simp add: is_day_def)
qed

theorem grid_day_cells_witness:
  "let c = \<lparr>loggedInUser = \<lparr>uid = 0, user_name = ''Bob'', user_identifier = ''1'', role = Editor\<rparr>,
            users = [], currentMonth = 8, currentYear = 2025, monthData = Map.empty,
            userModalOpen = False, uploadDate = None, client_tz = 0\<rparr>
   in filter is_day (concat (render_grid c 0 2025 8)) =
      [cell_of c 0 (new_date_local (client_tz c) 2025 8 d) (date_key 2025 8 d) d.
         d \<leftarrow> [1..days_in_month 2025 (nat 8)],
         get_day (client_tz c) (new_date_local (client_tz c) 2025 8 d) \<notin> {0, 6}]"
  unfolding Let_def by (rule grid_day_cells) simp_all

text \<open>
  C20.  When the month does not start on a Sunday, every row of the table has five
  cells, except empty rows (appended when the last day falls on a weekend after the
  Friday row was pushed).
\<close>

theorem grid_rows_five:
  assumes "get_day (client_tz c) (new_date_local (client_tz c) y m 1) \<noteq> 0"
  shows "\<forall>r \<in> set (render_grid c now y m). length r \<in> {0, 5}"
proof -
  let ?w = "get_day (client_tz c) (new_date_local (client_tz c) y m 1)"
  have "1 \<le> ?w" "?w < 7"
    using assms get_day_range [of "client_tz c" "new_date_local (client_tz c) y m 1"] by auto
  then have "rows_ok (replicate (nat ((if ?w = 0 then 7 else ?w) - 1)) OtherMonth, [])"
    by (simp add: rows_ok_def)
  then show ?thesis unfolding render_grid_def Let_def by (rule grid_loop_rows_ok)
qed

theorem grid_rows_five_witness:
  "let c = \<lparr>loggedInUser = \<lparr>uid = 0, user_name = ''Bob'', user_identifier = ''1'', role = Editor\<rparr>,
            users = [], currentMonth = 8, currentYear = 2025, monthData = Map.empty,
            userModalOpen = False, uploadDate = None, client_tz = 0\<rparr>
   in get_day (client_tz c) (new_date_local (client_tz c) 2025 8 1) \<noteq> 0 \<and>
      (\<forall>r \<in> set (render_grid c 0 2025 8). length r \<in> {0, 5})"
proof -
  let ?c = "\<lparr>loggedInUser = \<lparr>uid = 0, user_name = ''Bob'', user_identifier = ''1'', role = Editor\<rparr>,
            users = [], currentMonth = 8, currentYear = 2025, monthData = Map.empty,
            userModalOpen = False, uploadDate = None, client_tz = 0\<rparr>"
  have h: "get_day (client_tz ?c) (new_date_local (client_tz ?c) 2025 8 1) \<noteq> 0"
    by (simp add: weekday_eval)
  show ?thesis unfolding Let_def using h grid_rows_five [OF h] by blast
qed

text \<open>
  C21.  When the month starts on a Sunday (June 2025, for instance), \<open>getDay\<close> 0 is
  counted as 7, six filler cells start the first row, and the row is pushed only on
  the Friday: the first row has eleven cells, six fillers and Monday to Friday, in a
  table whose header has five columns.
\<close>

theorem grid_sunday_first_row:
  assumes "1000 \<le> y" and "0 \<le> m" and "m < 12"
    and "get_day (client_tz c) (new_date_local (client_tz c) y m 1) = 0"
  shows "hd (render_grid c now y m) =
           replicate 6 OtherMonth @
           [cell_of c now (new_date_local (client_tz c) y m d) (date_key y m d) d. d \<leftarrow> [2..6]] \<and>
         length (hd (render_grid c now y m)) = 11"
proof -
  define g where "g = \<lparr>g_client = c, g_now = now, g_year = y, g_month = m, g_days = days_in_month y (nat m)\<rparr>"
  have sel: "g_client g = c" "g_now g = now" "g_year g = y" "g_month g = m"
    "g_days g = days_in_month y (nat m)" by (simp_all add: g_def)
  have days: "28 \<le> g_days g" using days_in_month_ge [OF assms(2,3), of y] by (simp add: sel)
  have wd: "get_day (client_tz c) (new_date_local (client_tz c) y m d) = (d - 1) mod 7" for d
    using get_day_month_day [of "client_tz c" y m d] assms(4) by simp
  let ?cell = "\<lambda>d. cell_of c now (new_date_local (client_tz c) y m d) (date_key y m d) d"
  let ?row = "replicate 6 OtherMonth @ [?cell 2, ?cell 3, ?cell 4, ?cell 5, ?cell 6]"
  have st: "grid_step g 6 (grid_step g 5 (grid_step g 4 (grid_step g 3 (grid_step g 2
              (grid_step g 1 (replicate 6 OtherMonth, [])))))) = ([], [?row])"
    using days by (simp add: grid_step_def Let_def sel wd pad_row_def numeral_eq_Suc)
  have "render_grid c now y m = grid_loop g 1 (replicate 6 OtherMonth, [])"
    unfolding render_grid_days [OF assms(1-3)] g_def [symmetric] using assms(4) by simp
  also have "\<dots> = grid_loop g 7 ([], [?row])"
    using days st by (simp add: grid_loop_unroll)
  finally obtain rest where "render_grid c now y m = ?row # rest"
    using grid_loop_prefix [of g 7 "([], [?row])"] by auto
  moreover have "[?cell d. d \<leftarrow> [2..6]] = [?cell 2, ?cell 3, ?cell 4, ?cell 5, ?cell 6]"
    by (simp add: upto_Cons)
  ultimately show ?thesis by simp
qed

theorem grid_sunday_first_row_witness:
  "let c = \<lparr>loggedInUser = \<lparr>uid = 0, user_name = ''Bob'', user_identifier = ''1'', role = Editor\<rparr>,
            users = [], currentMonth = 5, currentYear = 2025, monthData = Map.empty,
            userModalOpen = False, uploadDate = None, client_tz = -18000000\<rparr>
   in hd (render_grid c 0 2025 5) =
        replicate 6 OtherMonth @
        [cell_of c 0 (new_date_local (client_tz c) 2025 5 d) (date_key 2025 5 d) d. d \<leftarrow> [2..6]] \<and>
      length (hd (render_grid c 0 2025 5)) = 11"
proof -
  let ?c = "\<lparr>loggedInUser = \<lparr>uid = 0, user_name = ''Bob'', user_identifier = ''1'', role = Editor\<rparr>,
            users = [], currentMonth = 5, currentYear = 2025, monthData = Map.empty,
            userModalOpen = False, uploadDate = None, client_tz = -18000000\<rparr>"
  have h: "get_day (client_tz ?c) (new_date_local (client_tz ?c) 2025 5 1) = 0"
    by (simp add: weekday_eval)
  show ?thesis unfolding Let_def by (rule grid_sunday_first_row [OF _ _ _ h]) simp_all
qed

end
