(* ===== verification/Server.thy ===== *)
theory Server
  imports Entry_Store Users Month_Query Api
begin

text \<open>
  The server as one request handler: the upload route (\<open>src/server.js\<close> lines
  268-275, with the file name multer's \<open>diskStorage\<close> gives it, lines 29-39), and
  the dispatch of every request of \<open>Api\<close> to its route.  The server runs in the time
  zone \<open>tz\<close>; \<open>now\<close> is \<open>Date.now()\<close> and \<open>rnd\<close> is
  \<open>Math.round(Math.random() * 1E9)\<close> when the request is handled.  The invariant of
  the whole server state is that of the entry store and the change log together with
  that of the user collection.
\<close>

subsection \<open>The upload route\<close>

text \<open>\<open>file.originalname.split('.').pop()\<close>: the text after the last dot, or the whole name.\<close>

definition file_ext :: "string \<Rightarrow> string" where
  "file_ext s = rev (takeWhile (\<lambda>ch. ch \<noteq> CHR ''.'') (rev s))"

text \<open>The \<open>filename\<close> callback of the disk storage (lines 33-37), for the field \<open>image\<close>.\<close>

definition upload_name :: "millis \<Rightarrow> int \<Rightarrow> string \<Rightarrow> string" where
  "upload_name now rnd orig =
     ''image-'' @ int_to_string now @ ''-'' @ int_to_string rnd @ ''.'' @ file_ext orig"

text \<open>
  \<open>POST /api/upload\<close>: without a file, a plain-text 400 (the message is
  ``No se ha subido ningun archivo.'' with an accented \<open>u\<close>, written as its
  two UTF-8 bytes); otherwise the URL under \<open>/uploads/\<close>.
\<close>

definition upload_image :: "millis \<Rightarrow> int \<Rightarrow> string option \<Rightarrow> reply" where
  "upload_image now rnd file =
     (case file of
        None \<Rightarrow> Inl (BadRequestText (''No se ha subido ning'' @ [char_of (195::nat), char_of (186::nat)]
                                     @ ''n archivo.''))
      | Some orig \<Rightarrow> Inr (200, PImageUrl (''/uploads/'' @ upload_name now rnd orig)))"

subsection \<open>Dispatch\<close>

text \<open>Express routes each request to the handler of its method and path.\<close>

fun handle :: "int \<Rightarrow> millis \<Rightarrow> int \<Rightarrow> request \<Rightarrow> srv \<Rightarrow> reply \<times> srv" where
  "handle tz now rnd (ReqLogin i) s = (login i s, s)"
| "handle tz now rnd ReqGetUsers s = (get_users s, s)"
| "handle tz now rnd (ReqPostUser b) s = post_user b s"
| "handle tz now rnd (ReqDeleteUser i) s = delete_user i s"
| "handle tz now rnd (ReqGetMonth y m) s = (list_month tz y m s, s)"
| "handle tz now rnd (ReqGetEntry k) s = (get_entry k s, s)"
| "handle tz now rnd (ReqPostEntry b) s = post_entry now b s"
| "handle tz now rnd (ReqPutEntry k b) s = put_entry now k b s"
| "handle tz now rnd (ReqDeleteEntry k) s = delete_entry now k s"
| "handle tz now rnd (ReqGetLogs y m) s = (get_logs tz y m s, s)"
| "handle tz now rnd (ReqUpload f) s = (upload_image now rnd f, s)"

text \<open>
  A sequence of requests handled one after the other, each with the clock and random
  value of its handling.  Node runs the route bodies between awaits one at a time; the
  model runs each route as one atomic step.  This is a simplification: two requests
  on one key can interleave at the awaits of a route (the \<open>findOne\<close>, the upsert and
  the log save of \<open>PUT\<close>, lines 210-223), and a \<open>PUT\<close> may then log a
  \<open>previousData\<close> that another write has already replaced.  No property here is
  about such interleavings.
\<close>

fun serve_all :: "int \<Rightarrow> (millis \<times> int \<times> request) list \<Rightarrow> srv \<Rightarrow> reply list \<times> srv" where
  "serve_all tz [] s = ([], s)"
| "serve_all tz ((now, rnd, r) # rs) s =
     (let (rep, s1) = handle tz now rnd r s; (reps, s2) = serve_all tz rs s1 in (rep # reps, s2))"

subsection \<open>The server invariant\<close>

definition srv_inv :: "srv \<Rightarrow> bool" where
  "srv_inv s \<longleftrightarrow> store_inv s \<and> users_inv s"

text \<open>
  The append-only parts of the state: the change log and the broadcast stream only
  grow, and by at most one element per request.
\<close>

definition grows_by_one :: "'a list \<Rightarrow> 'a list \<Rightarrow> bool" where
  "grows_by_one xs ys \<longleftrightarrow> (\<exists>zs. ys = xs @ zs \<and> length zs \<le> 1)"

lemma grows_by_one_refl [simp]: "grows_by_one xs xs"
  by (auto simp: grows_by_one_def)

lemma grows_by_one_snoc [simp]: "grows_by_one xs (xs @ [x])"
  by (auto simp: grows_by_one_def)

lemma store_inv_users [simp]: "store_inv (s\<lparr>user_docs := us, next_uid := n\<rparr>) = store_inv s"
  by (simp add: store_inv_def)

lemma store_inv_emit [simp]: "store_inv (emit ev s) = store_inv s"
  by (simp add: store_inv_def emit_def)

lemma users_inv_entries [simp]: "users_inv (s\<lparr>entry_docs := es\<rparr>) = users_inv s"
  by (simp add: users_inv_def)

lemma users_inv_append_log [simp]: "users_inv (append_log l s) = users_inv s"
  by (simp add: users_inv_def append_log_def)

text \<open>What the entry routes leave unchanged, and how they extend the two streams.\<close>

lemma entry_routes_frame:
  assumes "(r, s') = put_entry now k b s \<or> (r, s') = post_entry now b s \<or> (r, s') = delete_entry now k s"
  shows "user_docs s' = user_docs s \<and> next_uid s' = next_uid s \<and>
         grows_by_one (log_docs s) (log_docs s') \<and> grows_by_one (emitted s) (emitted s')"
  using assms
  by (auto simp: put_entry_def post_entry_def delete_entry_def Let_def append_log_def emit_def
      split: sum.splits prod.splits option.splits)

lemma user_routes_frame:
  assumes "(r, s') = post_user b s \<or> (r, s') = delete_user i s"
  shows "entry_docs s' = entry_docs s \<and> log_docs s' = log_docs s \<and>
         grows_by_one (emitted s) (emitted s')"
  using assms
  by (auto simp: post_user_def delete_user_def emit_def split: sum.splits option.splits)

lemma users_inv_frame:
  "users_inv s \<Longrightarrow> user_docs s' = user_docs s \<Longrightarrow> next_uid s' = next_uid s \<Longrightarrow> users_inv s'"
  by (simp add: users_inv_def)

lemma store_inv_frame:
  "store_inv s \<Longrightarrow> entry_docs s' = entry_docs s \<Longrightarrow> log_docs s' = log_docs s \<Longrightarrow> store_inv s'"
  by (simp add: store_inv_def)

lemma handle_inv_step:
  assumes "srv_inv s" and "handle tz now rnd r s = (rep, s')"
  shows "srv_inv s' \<and> grows_by_one (log_docs s) (log_docs s') \<and> grows_by_one (emitted s) (emitted s')"
proof (cases r)
  case (ReqPostUser b)
  with assms have p: "post_user b s = (rep, s')" by simp
  from user_routes_frame [of rep s' b s] p have "entry_docs s' = entry_docs s" "log_docs s' = log_docs s"
    "grows_by_one (emitted s) (emitted s')" by auto
  moreover from assms(1) p have "users_inv s'" by (auto simp: srv_inv_def intro: post_user_users_inv)
  ultimately show ?thesis using assms(1) by (auto simp: srv_inv_def intro: store_inv_frame)
next
  case (ReqDeleteUser i)
  with assms have p: "delete_user i s = (rep, s')" by simp
  from user_routes_frame [of rep s' _ s i] p have "entry_docs s' = entry_docs s" "log_docs s' = log_docs s"
    "grows_by_one (emitted s) (emitted s')" by auto
  moreover from assms(1) p have "users_inv s'" by (auto simp: srv_inv_def intro: delete_user_users_inv)
  ultimately show ?thesis using assms(1) by (auto simp: srv_inv_def intro: store_inv_frame)
next
  case (ReqPostEntry b)
  with assms have p: "post_entry now b s = (rep, s')" by simp
  from entry_routes_frame [of rep s' now _ b s] p have "user_docs s' = user_docs s" "next_uid s' = next_uid s"
    "grows_by_one (log_docs s) (log_docs s')" "grows_by_one (emitted s) (emitted s')" by auto
  moreover from assms(1) p have "store_inv s'" by (auto simp: srv_inv_def intro: post_entry_store_inv)
  ultimately show ?thesis using assms(1) by (auto simp: srv_inv_def intro: users_inv_frame)
next
  case (ReqPutEntry k b)
  with assms have p: "put_entry now k b s = (rep, s')" by simp
  from entry_routes_frame [of rep s' now k b s] p have "user_docs s' = user_docs s" "next_uid s' = next_uid s"
    "grows_by_one (log_docs s) (log_docs s')" "grows_by_one (emitted s) (emitted s')" by auto
  moreover from assms(1) p have "store_inv s'" by (auto simp: srv_inv_def intro: put_entry_store_inv)
  ultimately show ?thesis using assms(1) by (auto simp: srv_inv_def intro: users_inv_frame)
next
  case (ReqDeleteEntry k)
  with assms have p: "delete_entry now k s = (rep, s')" by simp
  from entry_routes_frame [of rep s' now k _ s] p have "user_docs s' = user_docs s" "next_uid s' = next_uid s"
    "grows_by_one (log_docs s) (log_docs s')" "grows_by_one (emitted s) (emitted s')" by auto
  moreover from assms(1) p have "store_inv s'" by (auto simp: srv_inv_def intro: delete_entry_store_inv)
  ultimately show ?thesis using assms(1) by (auto simp: srv_inv_def intro: users_inv_frame)
qed (use assms in auto)

lemma grows_by_one_prefix: "grows_by_one xs ys \<Longrightarrow> \<exists>zs. ys = xs @ zs"
  by (auto simp: grows_by_one_def)

lemma serve_all_inv:
  "srv_inv s \<Longrightarrow> srv_inv (snd (serve_all tz rs s)) \<and>
     (\<exists>zs. log_docs (snd (serve_all tz rs s)) = log_docs s @ zs) \<and>
     (\<exists>zs. emitted (snd (serve_all tz rs s)) = emitted s @ zs)"
proof (induction rs arbitrary: s)
  case Nil
  then show ?case by simp
next
  case (Cons q rs)
  obtain now rnd r where q: "q = (now, rnd, r)" by (cases q) auto
  obtain rep s1 where h: "handle tz now rnd r s = (rep, s1)" by fastforce
  from handle_inv_step [OF Cons.prems h] have "srv_inv s1"
    and l: "\<exists>zs. log_docs s1 = log_docs s @ zs" and e: "\<exists>zs. emitted s1 = emitted s @ zs"
    by (auto dest: grows_by_one_prefix)
  with Cons.IH [of s1] l e show ?case
    by (auto simp: q h split_beta)
qed

subsection \<open>Properties of the server\<close>

text \<open>
  C22.  Starting from the state \<open>createDefaultAdmin\<close> leaves on an empty database,
  every sequence of requests, whatever their kinds, bodies and order, keeps the
  server invariant (unique entry keys, well-formed change-log records, distinct
  non-empty user names, identifiers and ids), and only appends to the change log and
  to the broadcast stream: no record or event is ever changed or removed.
\<close>

theorem server_runs_preserve_inv:
  assumes "srv_inv s"
  shows "srv_inv (snd (serve_all tz rs s)) \<and>
         (\<exists>zs. log_docs (snd (serve_all tz rs s)) = log_docs s @ zs) \<and>
         (\<exists>zs. emitted (snd (serve_all tz rs s)) = emitted s @ zs)"
  using assms by (rule serve_all_inv)

theorem server_runs_preserve_inv_witness:
  "let s = create_default_admin srv_init;
       rs = [(1, 7, ReqPutEntry ''2025-09-18'' (empty_body\<lparr>b_name := Some ''Ana'', b_editor := Some ''Bob''\<rparr>)),
             (2, 8, ReqPostUser \<lparr>ub_name = Some ''Ana'', ub_identifier = Some ''77'', ub_role = None\<rparr>),
             (3, 9, ReqDeleteEntry ''2025-09-18'')]
   in srv_inv s \<and> srv_inv (snd (serve_all 0 rs s)) \<and>
      (\<exists>zs. log_docs (snd (serve_all 0 rs s)) = log_docs s @ zs) \<and>
      (\<exists>zs. emitted (snd (serve_all 0 rs s)) = emitted s @ zs)"
proof -
  have inv: "srv_inv (create_default_admin srv_init)"
    by (simp add: srv_inv_def store_inv_def users_inv_def create_default_admin_def srv_init_def keys_unique_def)
  show ?thesis unfolding Let_def using inv server_runs_preserve_inv [OF inv] by blast
qed


subsection \<open>The reply types of the routes\<close>

text \<open>
  The contract of the API as the client reads it: for each route, the status and
  payload kind of a success (\<open>res.json\<close> with 200, or \<open>res.status(201)\<close>), and the
  statuses of its failures (lines 104-275).
\<close>

fun reply_type :: "request \<Rightarrow> nat \<times> payload \<Rightarrow> bool" where
  "reply_type (ReqLogin _) (st, p) = (st = 200 \<and> (case p of PUser _ \<Rightarrow> True | _ \<Rightarrow> False))"
| "reply_type ReqGetUsers (st, p) = (st = 200 \<and> (case p of PUsers _ \<Rightarrow> True | _ \<Rightarrow> False))"
| "reply_type (ReqPostUser _) (st, p) = (st = 201 \<and> (case p of PUser _ \<Rightarrow> True | _ \<Rightarrow> False))"
| "reply_type (ReqDeleteUser _) (st, p) = (st = 200 \<and> (case p of PMessage _ \<Rightarrow> True | _ \<Rightarrow> False))"
| "reply_type (ReqGetMonth _ _) (st, p) = (st = 200 \<and> (case p of PEntries _ \<Rightarrow> True | _ \<Rightarrow> False))"
| "reply_type (ReqGetEntry _) (st, p) = (st = 200 \<and> (case p of PEntry _ \<Rightarrow> True | _ \<Rightarrow> False))"
| "reply_type (ReqPostEntry _) (st, p) = (st = 201 \<and> (case p of PEntry _ \<Rightarrow> True | _ \<Rightarrow> False))"
| "reply_type (ReqPutEntry _ _) (st, p) = (st = 200 \<and> (case p of PEntry _ \<Rightarrow> True | _ \<Rightarrow> False))"
| "reply_type (ReqDeleteEntry _) (st, p) = (st = 200 \<and> (case p of PMessage _ \<Rightarrow> True | _ \<Rightarrow> False))"
| "reply_type (ReqGetLogs _ _) (st, p) = (st = 200 \<and> (case p of PLogs _ \<Rightarrow> True | _ \<Rightarrow> False))"
| "reply_type (ReqUpload _) (st, p) = (st = 200 \<and> (case p of PImageUrl _ \<Rightarrow> True | _ \<Rightarrow> False))"

fun error_statuses :: "request \<Rightarrow> nat list" where
  "error_statuses (ReqLogin _) = [404, 500]"
| "error_statuses ReqGetUsers = [500]"
| "error_statuses (ReqPostUser _) = [400]"
| "error_statuses (ReqDeleteUser _) = [404, 500]"
| "error_statuses (ReqGetMonth _ _) = [500]"
| "error_statuses (ReqGetEntry _) = [404, 500]"
| "error_statuses (ReqPostEntry _) = [400]"
| "error_statuses (ReqPutEntry _ _) = [400]"
| "error_statuses (ReqDeleteEntry _) = [404, 500]"
| "error_statuses (ReqGetLogs _ _) = [500]"
| "error_statuses (ReqUpload _) = [400]"

fun route_typed :: "request \<Rightarrow> reply \<Rightarrow> bool" where
  "route_typed r (Inl e) = (status_of e \<in> set (error_statuses r))"
| "route_typed r (Inr x) = reply_type r x"

text \<open>
  C29.  Every route answers with the status and payload kind of its contract: 200 with
  the user, the users, the entries, the entry, the logs, a message or the image URL; 201
  with the created user or entry; and on failure only the statuses its \<open>catch\<close> and
  early returns use.
\<close>

theorem handle_typed: "route_typed r (fst (handle tz now rnd r s))"
  by (cases r) (auto simp: handler_defs list_month_def get_logs_def upload_image_def Let_def
      split: option.splits sum.splits prod.splits)


subsection \<open>File names of uploads\<close>

lemma file_ext_last_dot:
  "CHR ''.'' \<notin> set (file_ext s) \<and> (\<exists>pre. s = pre @ file_ext s \<and> (pre = [] \<or> last pre = CHR ''.''))"
proof -
  let ?P = "\<lambda>ch. ch \<noteq> CHR ''.''"
  let ?pre = "rev (dropWhile ?P (rev s))"
  have "s = rev (takeWhile ?P (rev s) @ dropWhile ?P (rev s))" by simp
  then have split: "s = ?pre @ file_ext s" by (simp only: rev_append file_ext_def)
  have "dropWhile ?P (rev s) \<noteq> [] \<Longrightarrow> hd (dropWhile ?P (rev s)) = CHR ''.''"
    using hd_dropWhile [of ?P "rev s"] by blast
  then have last: "?pre = [] \<or> last ?pre = CHR ''.''" by (auto simp: last_rev)
  have "CHR ''.'' \<notin> set (file_ext s)" by (auto simp: file_ext_def dest: set_takeWhileD)
  with split last show ?thesis by blast
qed

text \<open>
  C30.  Uploaded files never overwrite each other when their times or random numbers
  differ: the name \<open>image-<now>-<rnd>.<ext>\<close> determines \<open>Date.now()\<close> and the
  random number, both non-negative.  The extension is the text after the last dot of
  the original name, with no dot in it; a name with no dot is kept whole.
\<close>

theorem upload_name_unique:
  assumes "0 \<le> now" "0 \<le> rnd" "0 \<le> now'" "0 \<le> rnd'"
    and "upload_image now rnd (Some orig) = upload_image now' rnd' (Some orig')"
  shows "now = now' \<and> rnd = rnd' \<and> file_ext orig = file_ext orig' \<and>
         CHR ''.'' \<notin> set (file_ext orig) \<and>
         (\<exists>pre. orig = pre @ file_ext orig \<and> (pre = [] \<or> last pre = CHR ''.''))"
proof -
  note p = int_to_string_nonneg [OF assms(1)] int_to_string_nonneg [OF assms(2)]
    int_to_string_nonneg [OF assms(3)] int_to_string_nonneg [OF assms(4)]
  from assms(5) have "int_to_string now @ CHR ''-'' # (int_to_string rnd @ CHR ''.'' # file_ext orig) =
      int_to_string now' @ CHR ''-'' # (int_to_string rnd' @ CHR ''.'' # file_ext orig')"
    by (simp add: upload_image_def upload_name_def)
  from split_at_first [OF _ _ this] p
  have a: "int_to_string now = int_to_string now'" and
    r: "int_to_string rnd @ CHR ''.'' # file_ext orig = int_to_string rnd' @ CHR ''.'' # file_ext orig'"
    by simp_all
  from split_at_first [OF _ _ r] p
  have b: "int_to_string rnd = int_to_string rnd'" and e: "file_ext orig = file_ext orig'"
    by simp_all
  show ?thesis
    using int_to_string_inj [OF assms(1,3) a] int_to_string_inj [OF assms(2,4) b] e
      file_ext_last_dot [of orig]
    by simp
qed

theorem upload_name_unique_witness:
  "upload_image 5 7 (Some ''a.b.png'') = upload_image 5 7 (Some ''c.png'') \<and>
   file_ext ''a.b.png'' = ''png'' \<and> file_ext ''c.png'' = ''png''"
proof -
  have e: "upload_image 5 7 (Some ''a.b.png'') = upload_image 5 7 (Some ''c.png'')"
    by (simp add: upload_image_def upload_name_def file_ext_def)
  have "file_ext ''a.b.png'' = file_ext ''c.png''"
    using upload_name_unique [OF _ _ _ _ e] by simp
  moreover have "file_ext ''c.png'' = ''png''" by (simp add: file_ext_def)
  ultimately show ?thesis using e by simp
qed

end
