(* ===== verification/Sync.thy ===== *)
theory Sync
  imports Server Client_View
begin

text \<open>
  The running system: one server and the browsers logged in to it.  Requests a
  browser sends travel to the server and are handled in any order (\<open>fetch\<close> calls
  are concurrent, and the client awaits none of its saves); replies travel back in
  any order; the broadcast stream of the server reaches every browser in order, each
  browser having processed a prefix of it (Socket.IO keeps one ordered connection per
  browser).  A browser joins as a user of the store, with \<open>mainAppInit\<close>; the login
  round trip before it is not modelled here.  It then reads the stream from its
  current end.  Alerts and reports a browser shows are outputs and are not kept.  The
  actions of the system form a datatype and one step function executes them.  The
  internal steps (handling, replies, delivery) form the inductive relation \<open>istep\<close>,
  which is well founded.  The theory also composes the client's handlers with the
  server's routes: the month load and two edits of one browser.
\<close>

subsection \<open>State and actions\<close>

record sys =
  server :: srv
  clients :: "client list"
  inflight :: "(nat \<times> cont \<times> request) list"
  replies :: "(nat \<times> cont \<times> reply) list"
  seen :: "nat list"

definition sys_init :: "srv \<Rightarrow> sys" where
  "sys_init s = \<lparr>server = s, clients = [], inflight = [], replies = [], seen = []\<rparr>"

datatype sys_action =
    Act nat ui_event
  | Join int millis nat
  | Serve nat millis int
  | Answer nat
  | Deliver nat

text \<open>The requests among the effects of a handler of browser \<open>i\<close>.\<close>

fun sends :: "nat \<Rightarrow> effect list \<Rightarrow> (nat \<times> cont \<times> request) list" where
  "sends i [] = []"
| "sends i (Send k r # effs) = (i, k, r) # sends i effs"
| "sends i (_ # effs) = sends i effs"

definition drop_at :: "nat \<Rightarrow> 'a list \<Rightarrow> 'a list" where
  "drop_at j xs = take j xs @ drop (Suc j) xs"

text \<open>
  One action: a control operated in browser \<open>i\<close>; a browser in zone \<open>ctz\<close> joining at
  time \<open>now\<close> as the user with id \<open>u\<close> (\<open>mainAppInit\<close>); the server handling the
  \<open>j\<close>-th request in flight at time \<open>now\<close>; the \<open>j\<close>-th reply reaching its browser;
  the next event of the stream reaching browser \<open>i\<close>.  \<open>None\<close> when the action is
  not enabled.
\<close>

fun sys_exec :: "int \<Rightarrow> sys_action \<Rightarrow> sys \<Rightarrow> sys option" where
  "sys_exec tz (Act i ev) S =
     (if i < length (clients S)
      then let (c', effs) = ui_step ev (clients S ! i)
           in Some (S\<lparr>clients := (clients S)[i := c'], inflight := inflight S @ sends i effs\<rparr>)
      else None)"
| "sys_exec tz (Join ctz now u) S =
     (case find (\<lambda>x. uid x = u) (user_docs (server S)) of
        None \<Rightarrow> None
      | Some usr \<Rightarrow>
          let (c, effs) = main_app_init ctz now usr
          in Some (S\<lparr>clients := clients S @ [c], seen := seen S @ [length (emitted (server S))],
                     inflight := inflight S @ sends (length (clients S)) effs\<rparr>))"
| "sys_exec tz (Serve j now rnd) S =
     (if j < length (inflight S)
      then let (i, k, r) = inflight S ! j; (rep, s') = handle tz now rnd r (server S)
           in Some (S\<lparr>server := s', inflight := drop_at j (inflight S),
                      replies := replies S @ [(i, k, rep)]\<rparr>)
      else None)"
| "sys_exec tz (Answer j) S =
     (if j < length (replies S) \<and> fst (replies S ! j) < length (clients S)
      then let (i, k, rep) = replies S ! j; (c', effs) = on_reply k rep (clients S ! i)
           in Some (S\<lparr>clients := (clients S)[i := c'], replies := drop_at j (replies S),
                      inflight := inflight S @ sends i effs\<rparr>)
      else None)"
| "sys_exec tz (Deliver i) S =
     (if i < length (clients S) \<and> i < length (seen S) \<and> seen S ! i < length (emitted (server S))
      then let (c', effs) = on_event (emitted (server S) ! (seen S ! i)) (clients S ! i)
           in Some (S\<lparr>clients := (clients S)[i := c'], seen := (seen S)[i := Suc (seen S ! i)],
                      inflight := inflight S @ sends i effs\<rparr>)
      else None)"

text \<open>The actions no user performs: handling, replies and event delivery.\<close>

fun internal :: "sys_action \<Rightarrow> bool" where
  "internal (Act _ _) = False"
| "internal (Join _ _ _) = False"
| "internal _ = True"

lemma handle_emitted:
  "handle tz now rnd r s = (rep, s') \<Longrightarrow> grows_by_one (emitted s) (emitted s')"
  by (cases r) (simp_all, (metis entry_routes_frame user_routes_frame)+)

lemma sys_exec_Serve:
  assumes "sys_exec tz (Serve j now rnd) S = Some S'"
  shows "\<exists>i k r rep s'. j < length (inflight S) \<and> inflight S ! j = (i, k, r) \<and>
           handle tz now rnd r (server S) = (rep, s') \<and>
           S' = S\<lparr>server := s', inflight := drop_at j (inflight S), replies := replies S @ [(i, k, rep)]\<rparr>"
proof -
  from assms have j: "j < length (inflight S)" by (simp split: if_splits)
  obtain i k r where q: "inflight S ! j = (i, k, r)" by (cases "inflight S ! j") auto
  obtain rep s' where h: "handle tz now rnd r (server S) = (rep, s')" by fastforce
  from assms j q h show ?thesis by auto
qed

lemma sys_exec_Answer:
  assumes "sys_exec tz (Answer j) S = Some S'"
  shows "\<exists>i k rep c' effs. j < length (replies S) \<and> replies S ! j = (i, k, rep) \<and>
           i < length (clients S) \<and> on_reply k rep (clients S ! i) = (c', effs) \<and>
           S' = S\<lparr>clients := (clients S)[i := c'], replies := drop_at j (replies S),
                  inflight := inflight S @ sends i effs\<rparr>"
proof -
  from assms have j: "j < length (replies S)" and i0: "fst (replies S ! j) < length (clients S)"
    by (simp_all split: if_splits)
  obtain i k rep where q: "replies S ! j = (i, k, rep)" by (cases "replies S ! j") auto
  obtain c' effs where o: "on_reply k rep (clients S ! i) = (c', effs)" by fastforce
  from assms j i0 q o show ?thesis by auto
qed

lemma sys_exec_Deliver:
  assumes "sys_exec tz (Deliver i) S = Some S'"
  shows "\<exists>c' effs. i < length (clients S) \<and> i < length (seen S) \<and>
           seen S ! i < length (emitted (server S)) \<and>
           on_event (emitted (server S) ! (seen S ! i)) (clients S ! i) = (c', effs) \<and>
           S' = S\<lparr>clients := (clients S)[i := c'], seen := (seen S)[i := Suc (seen S ! i)],
                  inflight := inflight S @ sends i effs\<rparr>"
proof -
  from assms have c: "i < length (clients S) \<and> i < length (seen S) \<and> seen S ! i < length (emitted (server S))"
    by (simp split: if_splits)
  obtain c' effs where o: "on_event (emitted (server S) ! (seen S ! i)) (clients S ! i) = (c', effs)"
    by fastforce
  from assms c o show ?thesis by auto
qed

subsection \<open>Termination of the internal steps\<close>

text \<open>
  The weight of a state: a request costs 2 when it reads, \<open>B\<close> when it writes and
  \<open>2B + 2\<close> when it is an image upload, where \<open>B = 3n + 2\<close> for \<open>n\<close> browsers.  A reply
  costs 1, or \<open>B + 1\<close> for the reply to an upload, which sends one \<open>PUT\<close>.  Each broadcast a
  browser has still to receive costs 3.  A write's handling adds at most one broadcast,
  that is at most \<open>3n\<close>, and its reply costs 1, so the weight drops.  Delivering a
  broadcast sends at most one read.
\<close>

fun is_upload :: "cont \<Rightarrow> bool" where
  "is_upload (KUpload _) = True"
| "is_upload _ = False"

definition req_weight :: "nat \<Rightarrow> cont \<Rightarrow> request \<Rightarrow> nat" where
  "req_weight B k r = (if is_upload k then 2 * B + 2 else if is_write r then B else 2)"

definition reply_weight :: "nat \<Rightarrow> cont \<Rightarrow> nat" where
  "reply_weight B k = (if is_upload k then B + 1 else 1)"

definition pending :: "nat \<Rightarrow> nat list \<Rightarrow> nat" where
  "pending L ns = sum_list (map (\<lambda>n. L - n) ns)"

definition sys_weight :: "sys \<Rightarrow> nat" where
  "sys_weight S =
     (let B = 3 * length (seen S) + 2
      in sum_list (map (\<lambda>(i, k, r). req_weight B k r) (inflight S)) +
         sum_list (map (\<lambda>(i, k, rep). reply_weight B k) (replies S)) +
         3 * pending (length (emitted (server S))) (seen S))"

lemma sum_list_drop_at:
  fixes f :: "'a \<Rightarrow> nat"
  shows "j < length xs \<Longrightarrow> sum_list (map f (drop_at j xs)) + f (xs ! j) = sum_list (map f xs)"
proof -
  assume j: "j < length xs"
  then have "xs = take j xs @ xs ! j # drop (Suc j) xs" by (simp add: id_take_nth_drop)
  then have "sum_list (map f xs) = sum_list (map f (take j xs)) + f (xs ! j) + sum_list (map f (drop (Suc j) xs))"
    by (metis (no_types) add.assoc list.map(2) map_append sum_list.Cons sum_list_append)
  then show ?thesis by (simp add: drop_at_def)
qed

lemma pending_grow: "L' \<le> Suc L \<Longrightarrow> pending L' ns \<le> pending L ns + length ns"
  by (induction ns) (auto simp: pending_def)

lemma pending_Cons [simp]: "pending L (n # ns) = (L - n) + pending L ns"
  by (simp add: pending_def)

lemma pending_append [simp]: "pending L (ns @ [L]) = pending L ns"
  by (simp add: pending_def)

lemma pending_deliver:
  "i < length ns \<Longrightarrow> ns ! i < L \<Longrightarrow> Suc (pending L (ns[i := Suc (ns ! i)])) = pending L ns"
proof (induction ns arbitrary: i)
  case (Cons n ns)
  then show ?case by (cases i) auto
qed simp

lemma sends_weight_on_reply:
  "sum_list (map (\<lambda>(i, k, r). req_weight B k r) (sends i (snd (on_reply k rep c)))) < reply_weight B k"
  by (cases k) (auto simp: reply_weight_def req_weight_def save_data_def Let_def
      split: sum.splits prod.splits payload.splits)

lemma sends_weight_on_event:
  "sum_list (map (\<lambda>(i, k, r). req_weight B k r) (sends i (snd (on_event ev c)))) \<le> 2"
  by (cases ev) (auto simp: render_def req_weight_def Let_def)

lemma handle_read: "\<not> is_write r \<Longrightarrow> snd (handle tz now rnd r s) = s"
  by (cases r) simp_all

lemma weight_Serve:
  assumes "sys_exec tz (Serve j now rnd) S = Some S'"
  shows "sys_weight S' < sys_weight S"
proof -
  from sys_exec_Serve [OF assms] obtain i k r rep s' where
    j: "j < length (inflight S)" and q: "inflight S ! j = (i, k, r)" and
    h: "handle tz now rnd r (server S) = (rep, s')" and
    S': "S' = S\<lparr>server := s', inflight := drop_at j (inflight S), replies := replies S @ [(i, k, rep)]\<rparr>"
    by blast
  define B where "B = 3 * length (seen S) + 2"
  define L where "L = length (emitted (server S))"
  define L' where "L' = length (emitted s')"
  let ?f = "\<lambda>(i::nat, k, r). req_weight B k r"
  have rq: "sum_list (map ?f (drop_at j (inflight S))) + req_weight B k r = sum_list (map ?f (inflight S))"
    using sum_list_drop_at [OF j, of ?f] q by simp
  have g: "pending L' (seen S) \<le> pending L (seen S) + length (seen S)"
    using handle_emitted [OF h] grows_by_one_def pending_grow unfolding L_def L'_def
    by (metis One_nat_def add.commute length_append plus_1_eq_Suc add_le_mono1)
  have rd: "\<not> is_write r \<Longrightarrow> L' = L"
    using handle_read [of r tz now rnd "server S"] h unfolding L_def L'_def by simp
  have lt: "reply_weight B k + 3 * pending L' (seen S) < req_weight B k r + 3 * pending L (seen S)"
  proof (cases "is_upload k")
    case True
    then show ?thesis using g by (simp add: req_weight_def reply_weight_def B_def)
  next
    case False
    then show ?thesis using g rd by (cases "is_write r") (auto simp: req_weight_def reply_weight_def B_def)
  qed
  let ?g = "\<lambda>(i::nat, k, rep::reply). reply_weight B k"
  have wS: "sys_weight S = sum_list (map ?f (inflight S)) + sum_list (map ?g (replies S)) + 3 * pending L (seen S)"
    by (simp add: sys_weight_def B_def L_def)
  have wS': "sys_weight S' = sum_list (map ?f (drop_at j (inflight S))) + (sum_list (map ?g (replies S)) + reply_weight B k) + 3 * pending L' (seen S)"
    by (simp add: sys_weight_def B_def L'_def S')
  show ?thesis using rq wS wS' lt by linarith
qed

lemma weight_Answer:
  assumes "sys_exec tz (Answer j) S = Some S'"
  shows "sys_weight S' < sys_weight S"
proof -
  from sys_exec_Answer [OF assms] obtain i k rep c' effs where
    j: "j < length (replies S)" and q: "replies S ! j = (i, k, rep)" and
    o: "on_reply k rep (clients S ! i) = (c', effs)" and
    S': "S' = S\<lparr>clients := (clients S)[i := c'], replies := drop_at j (replies S),
                  inflight := inflight S @ sends i effs\<rparr>"
    by blast
  define B where "B = 3 * length (seen S) + 2"
  let ?f = "\<lambda>(i::nat, k, r). req_weight B k r"
  let ?g = "\<lambda>(i::nat, k, rep::reply). reply_weight B k"
  have rp: "sum_list (map ?g (drop_at j (replies S))) + reply_weight B k = sum_list (map ?g (replies S))"
    using sum_list_drop_at [OF j, of ?g] q by simp
  have sd: "sum_list (map ?f (sends i effs)) < reply_weight B k"
    using sends_weight_on_reply [of B i k rep "clients S ! i"] o by simp
  have wS: "sys_weight S = sum_list (map ?f (inflight S)) + sum_list (map ?g (replies S)) +
      3 * pending (length (emitted (server S))) (seen S)"
    by (simp add: sys_weight_def B_def)
  have wS': "sys_weight S' = (sum_list (map ?f (inflight S)) + sum_list (map ?f (sends i effs))) +
      sum_list (map ?g (drop_at j (replies S))) + 3 * pending (length (emitted (server S))) (seen S)"
    by (simp add: sys_weight_def B_def S')
  show ?thesis using rp sd wS wS' by linarith
qed

lemma weight_Deliver:
  assumes "sys_exec tz (Deliver i) S = Some S'"
  shows "sys_weight S' < sys_weight S"
proof -
  from sys_exec_Deliver [OF assms] obtain c' effs where
    i: "i < length (seen S)" and lt: "seen S ! i < length (emitted (server S))" and
    o: "on_event (emitted (server S) ! (seen S ! i)) (clients S ! i) = (c', effs)" and
    S': "S' = S\<lparr>clients := (clients S)[i := c'], seen := (seen S)[i := Suc (seen S ! i)],
                  inflight := inflight S @ sends i effs\<rparr>"
    by blast
  define B where "B = 3 * length (seen S) + 2"
  define L where "L = length (emitted (server S))"
  let ?f = "\<lambda>(i::nat, k, r). req_weight B k r"
  let ?g = "\<lambda>(i::nat, k, rep::reply). reply_weight B k"
  have sd: "sum_list (map ?f (sends i effs)) \<le> 2"
    using sends_weight_on_event [of B i _ "clients S ! i"] o by (metis snd_conv)
  have pd: "Suc (pending L ((seen S)[i := Suc (seen S ! i)])) = pending L (seen S)"
    using pending_deliver [OF i] lt unfolding L_def by blast
  have wS: "sys_weight S = sum_list (map ?f (inflight S)) + sum_list (map ?g (replies S)) +
      3 * pending L (seen S)"
    by (simp add: sys_weight_def B_def L_def)
  have wS': "sys_weight S' = (sum_list (map ?f (inflight S)) + sum_list (map ?f (sends i effs))) +
      sum_list (map ?g (replies S)) + 3 * pending L ((seen S)[i := Suc (seen S ! i)])"
    by (simp add: sys_weight_def B_def L_def S')
  show ?thesis using sd pd wS wS' by linarith
qed

lemma weight_internal:
  "internal a \<Longrightarrow> sys_exec tz a S = Some S' \<Longrightarrow> sys_weight S' < sys_weight S"
  by (cases a) (auto intro: weight_Serve weight_Answer weight_Deliver)

text \<open>The internal steps: handling, replies and event delivery.\<close>

inductive istep :: "int \<Rightarrow> sys \<Rightarrow> sys \<Rightarrow> bool" for tz where
  "internal a \<Longrightarrow> sys_exec tz a S = Some S' \<Longrightarrow> istep tz S S'"

lemma istep_weight: "istep tz S S' \<Longrightarrow> sys_weight S' < sys_weight S"
  by (induction rule: istep.induct) (rule weight_internal)

text \<open>
  C25.  Termination of the internal steps: there is no infinite sequence of server
  handling, reply and event-delivery steps without a user action in between.  Each
  such step lowers \<open>sys_weight\<close>; even a broadcast that every browser must still
  receive, or the \<open>PUT\<close> an upload reply triggers, is paid for by the step that
  produces it.
\<close>

theorem internal_steps_terminate: "wf {(S', S). istep tz S S'}"
  by (rule wf_subset [OF wf_measure [of sys_weight]]) (auto dest: istep_weight)

subsection \<open>Same-client writes\<close>

text \<open>
  C24.  Two edits by one editor of a day with no cached entry (cuadrante.js lines
  434-438), handled by the server in the order they were sent, lose the first edit.
  The blur handler builds the first body from a fresh default object and never stores
  it, so the second body again starts from the defaults and carries the empty name.
  Spec 5 says that writes from one client are serialised one blur at a time; here they
  are serialised and still overwrite each other.  This holds for every editor and every
  server state.
\<close>

theorem same_client_edits_overwrite:
  assumes "role (loggedInUser c) \<noteq> Viewer" "user_name (loggedInUser c) \<noteq> []" "k \<noteq> []"
    and "monthData c k = None"
    and "ui_step (UBlur k FName v) c = (c1, effs1)" "ui_step (UBlur k FPhone w) c1 = (c2, effs2)"
    and "serve_all tz [(t1, x1, hd (sent effs1)), (t2, x2, hd (sent effs2))] s = (reps, s')"
  shows "c1 = c \<and> map_option name (find_entry (entry_docs s') k) = Some (Some []) \<and>
         map_option phone (find_entry (entry_docs s') k) = Some (Some w)"
proof -
  let ?u = "user_name (loggedInUser c)"
  let ?b2 = "body_of ((set_field FPhone w (default_day k))\<lparr>editor := Some ?u\<rparr>)"
  from assms(5) blur_uncached [OF assms(1,4), of FName v] have c1: "c1 = c" by simp
  obtain b1 where e1: "sent effs1 = [ReqPutEntry k b1]"
    using assms(5) blur_uncached [OF assms(1,4), of FName v] by auto
  have e2: "sent effs2 = [ReqPutEntry k ?b2]"
    using assms(6) blur_uncached [OF assms(1,4), of FPhone w] c1 by auto
  obtain s1 where s': "s' = snd (put_entry t2 k ?b2 s1)"
    using assms(7) e1 e2 by (auto simp: split_beta)
  have "find_entry (entry_docs s') k = Some (merged (entry_docs s1) k ?b2)"
    unfolding s' by (rule put_entry_find [of _ k ?u]) (use assms(2,3) in \<open>simp_all add: body_of_def default_day_def\<close>)
  then show ?thesis
    using c1 by (simp add: merged_def apply_body_def body_of_def default_day_def)
qed

theorem same_client_edits_overwrite_witness:
  "let c = fst (main_app_init 0 0 \<lparr>uid = 1, user_name = ''Ana'', user_identifier = ''1'', role = Editor\<rparr>);
       r1 = ui_step (UBlur ''2025-09-18'' FName ''Ana'') c;
       r2 = ui_step (UBlur ''2025-09-18'' FPhone ''555'') (fst r1);
       s' = snd (serve_all 0 [(1, 0, hd (sent (snd r1))), (2, 0, hd (sent (snd r2)))] srv_init)
   in fst r1 = c \<and> map_option name (find_entry (entry_docs s') ''2025-09-18'') = Some (Some []) \<and>
      map_option phone (find_entry (entry_docs s') ''2025-09-18'') = Some (Some ''555'')"
  unfolding Let_def
  by (rule same_client_edits_overwrite [OF _ _ _ _ prod.collapse [symmetric] prod.collapse [symmetric]
        prod.collapse [symmetric]])
     (simp_all add: main_app_init_def Let_def)

subsection \<open>The month load\<close>

lemma fold_entries_find:
  "distinct (map dateKey es) \<Longrightarrow>
   fold (\<lambda>e m. m(dateKey e \<mapsto> e)) es m0 k = (case find_entry es k of Some e \<Rightarrow> Some e | None \<Rightarrow> m0 k)"
proof (induction es arbitrary: m0)
  case Nil
  then show ?case by (simp add: find_entry_def)
next
  case (Cons e es)
  have "k = dateKey e \<Longrightarrow> find_entry es k = None"
    using Cons.prems by (auto simp: find_entry_def find_None_iff) (metis image_eqI)
  with Cons show ?case by (auto simp: find_entry_def split: option.splits)
qed

lemma entries_map_find: "keys_unique es \<Longrightarrow> entries_map es = find_entry es"
  by (rule ext) (simp add: entries_map_def keys_unique_def fold_entries_find split: option.splits)

lemma find_entry_filter_key:
  "find_entry (filter (\<lambda>e. P (dateKey e)) es) k = (if P k then find_entry es k else None)"
  by (induction es) (auto simp: find_entry_def)

text \<open>
  C23.  The month load refines the store (server.js lines 192-199 and cuadrante.js
  lines 126-133).  On well-formed keys, after the reply to \<open>GET /api/calendar/y/m\<close>
  the browser's \<open>monthData\<close> is exactly the server's collection restricted to that
  month, as a map from keys to documents.  The keys of the store are unique, so the
  \<open>reduce\<close> keeps the one document of each key.
\<close>

theorem load_month_refines_store:
  assumes "store_inv s" "1000 \<le> y" "y \<le> 9999" "1 \<le> m" "m \<le> 12"
    and "\<forall>e \<in> set (entry_docs s). key_wf (dateKey e)"
  shows "monthData (fst (on_reply KLoadData (fst (handle tz now rnd (ReqGetMonth y m) s)) c)) =
           (\<lambda>k. if in_month y m k then find_entry (entry_docs s) k else None)"
proof -
  let ?es = "filter (\<lambda>e. in_month y m (dateKey e)) (entry_docs s)"
  have l: "fst (handle tz now rnd (ReqGetMonth y m) s) = Inr (200, PEntries ?es)"
    using list_month_filter [OF assms(2-6)] by simp
  have "keys_unique ?es"
    using assms(1) by (simp add: store_inv_def keys_unique_def distinct_map_filter)
  then have "entries_map ?es = find_entry ?es" by (rule entries_map_find)
  with l show ?thesis by (simp add: fun_eq_iff find_entry_filter_key [where P = "in_month y m"])
qed

theorem load_month_refines_store_witness:
  "let s = srv_init\<lparr>entry_docs := [new_entry_doc ''2025-08-31'', new_entry_doc ''2025-09-18'']\<rparr>;
       c = fst (on_reply KLoadData (fst (handle 0 0 0 (ReqGetMonth 2025 9) s))
                 (fst (main_app_init 0 0 \<lparr>uid = 3, user_name = ''Vera'', user_identifier = ''5'', role = Viewer\<rparr>)))
   in monthData c ''2025-09-18'' = Some (new_entry_doc ''2025-09-18'') \<and> monthData c ''2025-08-31'' = None"
proof -
  let ?s = "srv_init\<lparr>entry_docs := [new_entry_doc ''2025-08-31'', new_entry_doc ''2025-09-18'']\<rparr>"
  have wf: "\<forall>e \<in> set (entry_docs ?s). key_wf (dateKey e)" by code_simp
  have inv: "store_inv ?s" by (simp add: store_inv_def keys_unique_def srv_init_def new_entry_doc_def)
  have i1: "\<not> in_month 2025 9 ''2025-08-31''" by code_simp
  have i2: "in_month 2025 9 ''2025-09-18''" by code_simp
  show ?thesis
    using load_month_refines_store [OF inv _ _ _ _ wf, of 2025 9 0 0 0]
    by (simp add: Let_def i1 i2 find_entry_def new_entry_doc_def)
qed

end
