(* ===== verification/Service_Worker.thy ===== *)
theory Service_Worker
  imports Prelude "HOL-Library.AList"
begin

text \<open>
  The service worker of the client (src/public/service-worker.js).  On \<open>install\<close> it
  opens the cache \<open>CACHE_NAME\<close> and adds the five files of the application shell with
  \<open>cache.addAll\<close>.  On \<open>fetch\<close> it answers from \<open>caches.match\<close> and falls back to the
  network.  The network is a function from URLs to an optional response: \<open>None\<close> is a
  rejected \<open>fetch\<close>.  A response has an \<open>ok\<close> flag, a status in 200-299.  The
  \<open>CacheStorage\<close> is an association list of named caches in creation order, which
  is the order \<open>caches.match\<close> searches them in.  A cache is an association list from
  URLs to responses, and \<open>Cache.put\<close> is \<open>AList.update\<close>.  The worker's URLs are
  resolved against its own URL, \<open>/service-worker.js\<close>.
\<close>

type_synonym url = string

record resp =
  resp_ok :: bool
  resp_body :: string

type_synonym network = "url \<Rightarrow> resp option"
type_synonym cache = "(url \<times> resp) list"
type_synonym cache_storage = "(string \<times> cache) list"

definition CACHE_NAME :: string where
  "CACHE_NAME = ''cuadrante-planificador-cache-v1''"

definition urlsToCache :: "url list" where
  "urlsToCache = [''index.html'', ''cuadrante.css'', ''cuadrante.js'', ''icon-192.png'', ''icon-512.png'']"

definition scope_url :: "url \<Rightarrow> url" where
  "scope_url u = ''/'' @ u"

text \<open>\<open>caches.open(name)\<close>: the existing cache of that name, or a new empty one.\<close>

definition open_cache :: "string \<Rightarrow> cache_storage \<Rightarrow> cache_storage \<times> cache" where
  "open_cache n cs = (case map_of cs n of Some c \<Rightarrow> (cs, c) | None \<Rightarrow> (cs @ [(n, [])], []))"

text \<open>
  \<open>cache.addAll(urls)\<close>: fetch every URL.  The promise rejects, and nothing is stored,
  when a fetch rejects or a response is not \<open>ok\<close>.  Otherwise every response is put.
\<close>

fun fetch_all :: "network \<Rightarrow> url list \<Rightarrow> (url \<times> resp) list option" where
  "fetch_all net [] = Some []"
| "fetch_all net (u # us) =
     (case net u of
        None \<Rightarrow> None
      | Some r \<Rightarrow> if resp_ok r then map_option (Cons (u, r)) (fetch_all net us) else None)"

definition put_all :: "(url \<times> resp) list \<Rightarrow> cache \<Rightarrow> cache" where
  "put_all rs c = fold (\<lambda>(u, r) c. AList.update u r c) rs c"

definition add_all :: "network \<Rightarrow> url list \<Rightarrow> cache \<Rightarrow> cache option" where
  "add_all net us c = map_option (\<lambda>rs. put_all rs c) (fetch_all net us)"

text \<open>
  The \<open>install\<close> listener (lines 11-19).  \<open>event.waitUntil\<close> makes the installation
  fail when \<open>addAll\<close> rejects: the result is whether the worker is installed, with the
  cache storage after the event (the cache stays opened, and empty when it was new).
\<close>

definition install :: "network \<Rightarrow> cache_storage \<Rightarrow> bool \<times> cache_storage" where
  "install net cs =
     (let (cs1, c) = open_cache CACHE_NAME cs
      in case add_all net (map scope_url urlsToCache) c of
           None \<Rightarrow> (False, cs1)
         | Some c' \<Rightarrow> (True, AList.update CACHE_NAME c' cs1))"

text \<open>\<open>caches.match(request)\<close>: the first cache, in creation order, holding the URL.\<close>

fun storage_match :: "cache_storage \<Rightarrow> url \<Rightarrow> resp option" where
  "storage_match [] u = None"
| "storage_match ((n, c) # cs) u = (case map_of c u of Some r \<Rightarrow> Some r | None \<Rightarrow> storage_match cs u)"

text \<open>
  The \<open>fetch\<close> listener (lines 22-27): \<open>response || fetch(event.request)\<close>.  A rejected
  network fetch leaves the page with a network error, \<open>None\<close>.
\<close>

definition sw_fetch :: "cache_storage \<Rightarrow> network \<Rightarrow> url \<Rightarrow> resp option" where
  "sw_fetch cs net u = (case storage_match cs u of Some r \<Rightarrow> Some r | None \<Rightarrow> net u)"

subsection \<open>Lemmas\<close>

lemma fetch_all_Some_iff:
  "fetch_all net us \<noteq> None \<longleftrightarrow> (\<forall>u \<in> set us. \<exists>r. net u = Some r \<and> resp_ok r)"
  by (induction us) (auto split: option.splits)

lemma fetch_all_Some:
  "fetch_all net us = Some rs \<Longrightarrow> map fst rs = us \<and> (\<forall>(u, r) \<in> set rs. net u = Some r)"
  by (induction us arbitrary: rs) (auto split: option.splits if_splits)

lemma map_of_put_all:
  "\<forall>(u', r) \<in> set rs. net u' = Some r \<Longrightarrow>
   map_of (put_all rs c) u = (if u \<in> fst ` set rs then net u else map_of c u)"
proof (induction rs arbitrary: c)
  case Nil
  then show ?case by (simp add: put_all_def)
next
  case (Cons x rs)
  obtain u' r where x: "x = (u', r)" by fastforce
  have "map_of (put_all rs (AList.update u' r c)) u =
          (if u \<in> fst ` set rs then net u else map_of (AList.update u' r c) u)"
    using Cons by (simp add: put_all_def)
  then show ?case using Cons.prems x by (auto simp: put_all_def update_conv')
qed

lemma storage_match_append_empty [simp]:
  "storage_match (cs @ [(n, [])]) u = storage_match cs u"
proof (induction cs)
  case (Cons x cs)
  then show ?case by (cases x) (simp split: option.splits)
qed simp

lemma storage_match_single: "storage_match [(n, c)] u = map_of c u"
  by (simp split: option.splits)

lemma install_first:
  "install net [] =
     (case fetch_all net (map scope_url urlsToCache) of
        None \<Rightarrow> (False, [(CACHE_NAME, [])])
      | Some rs \<Rightarrow> (True, [(CACHE_NAME, put_all rs [])]))"
  by (simp add: install_def open_cache_def add_all_def split: option.splits)



lemma install_shell_cache:
  assumes "install net [] = (True, cs')"
  shows "\<exists>rs. cs' = [(CACHE_NAME, put_all rs [])] \<and> map fst rs = map scope_url urlsToCache \<and>
           (\<forall>(u, r) \<in> set rs. net u = Some r)"
  using assms fetch_all_Some [of net "map scope_url urlsToCache"]
  by (auto simp: install_first split: option.splits)

subsection \<open>Installation and request handling\<close>

text \<open>
  C26.  Installation is all or nothing (lines 11-19): the worker installs exactly when
  every file of the application shell is fetched with an \<open>ok\<close> response.  One missing
  icon makes \<open>addAll\<close> reject and the whole installation fail.
\<close>

theorem sw_install_atomic:
  "fst (install net cs) \<longleftrightarrow> (\<forall>u \<in> set urlsToCache. \<exists>r. net (scope_url u) = Some r \<and> resp_ok r)"
  using fetch_all_Some_iff [of net "map scope_url urlsToCache"]
  by (auto simp: install_def open_cache_def add_all_def split: option.splits)

theorem sw_install_atomic_witness:
  "let net = (\<lambda>u. Some \<lparr>resp_ok = (u \<noteq> ''/icon-512.png''), resp_body = u\<rparr>)
   in \<not> fst (install net []) \<and> \<not> (\<forall>u \<in> set urlsToCache. \<exists>r. net (scope_url u) = Some r \<and> resp_ok r)"
proof -
  let ?net = "\<lambda>u. Some \<lparr>resp_ok = (u \<noteq> ''/icon-512.png''), resp_body = u\<rparr>"
  have "\<not> (\<forall>u \<in> set urlsToCache. \<exists>r. ?net (scope_url u) = Some r \<and> resp_ok r)"
    by (simp add: urlsToCache_def scope_url_def)
  then show ?thesis using sw_install_atomic [of ?net "[]"] by (simp add: Let_def)
qed

text \<open>
  C27.  The application shell is pinned (lines 22-27).  After a first installation,
  every request for a shell file is answered from the cache with the response of
  installation time, whatever the network now returns.  The page is served offline,
  and a new \<open>cuadrante.js\<close> deployed on the server is never seen.  No listener
  updates the cache, and the cache name is fixed.
\<close>

theorem sw_shell_pinned:
  assumes "install net [] = (True, cs')" and "u \<in> set urlsToCache"
  shows "sw_fetch cs' net' (scope_url u) = net (scope_url u)"
proof -
  obtain rs where cs': "cs' = [(CACHE_NAME, put_all rs [])]" and
    k: "map fst rs = map scope_url urlsToCache" and n: "\<forall>(u, r) \<in> set rs. net u = Some r"
    using install_shell_cache [OF assms(1)] by blast
  have "scope_url u \<in> fst ` set rs"
    using k assms(2) by (metis image_eqI list.set_map)
  then have m: "map_of (put_all rs []) (scope_url u) = net (scope_url u)"
    using map_of_put_all [OF n] by simp
  have "net (scope_url u) \<noteq> None"
    using \<open>scope_url u \<in> fst ` set rs\<close> n by fastforce
  with m show ?thesis by (auto simp: sw_fetch_def cs' storage_match_single)
qed

theorem sw_shell_pinned_witness:
  "install (\<lambda>u. Some \<lparr>resp_ok = True, resp_body = ''v1''\<rparr>) [] =
     (True, snd (install (\<lambda>u. Some \<lparr>resp_ok = True, resp_body = ''v1''\<rparr>) [])) \<and>
   sw_fetch (snd (install (\<lambda>u. Some \<lparr>resp_ok = True, resp_body = ''v1''\<rparr>) []))
     (\<lambda>u. Some \<lparr>resp_ok = True, resp_body = ''v2''\<rparr>) ''/cuadrante.js'' =
   Some \<lparr>resp_ok = True, resp_body = ''v1''\<rparr>"
proof -
  let ?net = "\<lambda>u::url. Some \<lparr>resp_ok = True, resp_body = ''v1''\<rparr>"
  have i: "install ?net [] = (True, snd (install ?net []))"
    by (simp add: install_first urlsToCache_def scope_url_def)
  have "''cuadrante.js'' \<in> set urlsToCache" by (simp add: urlsToCache_def)
  from sw_shell_pinned [OF i this, of "\<lambda>u. Some \<lparr>resp_ok = True, resp_body = ''v2''\<rparr>"] i
  show ?thesis by (simp add: scope_url_def)
qed

text \<open>
  C28.  Every other request goes to the network (lines 22-27), whether the installation
  succeeded or not.  The REST calls of the client are never answered from the cache,
  so the calendar data is never stale, and it is unavailable offline.
\<close>

theorem sw_other_requests_network:
  assumes "install net [] = (b, cs')" and "u \<notin> scope_url ` set urlsToCache"
  shows "sw_fetch cs' net' u = net' u"
proof (cases "fetch_all net (map scope_url urlsToCache)")
  case None
  with assms(1) show ?thesis by (auto simp: install_first sw_fetch_def)
next
  case (Some rs)
  from fetch_all_Some [OF Some] have k: "fst ` set rs = scope_url ` set urlsToCache"
    and n: "\<forall>(u, r) \<in> set rs. net u = Some r" by (metis list.set_map)+
  have "map_of (put_all rs []) u = None"
    using map_of_put_all [OF n, of "[]" u] k assms(2) by simp
  with Some assms(1) show ?thesis by (auto simp: install_first sw_fetch_def storage_match_single)
qed

theorem sw_other_requests_network_witness:
  "let net = (\<lambda>u. Some \<lparr>resp_ok = True, resp_body = u\<rparr>)
   in ''/api/calendar/2025/10'' \<notin> scope_url ` set urlsToCache \<and>
      sw_fetch (snd (install net [])) (\<lambda>u. None) ''/api/calendar/2025/10'' = None"
proof -
  let ?net = "\<lambda>u::url. Some \<lparr>resp_ok = True, resp_body = u\<rparr>"
  have u: "''/api/calendar/2025/10'' \<notin> scope_url ` set urlsToCache"
    by (simp add: urlsToCache_def scope_url_def)
  have "install ?net [] = (fst (install ?net []), snd (install ?net []))" by simp
  from sw_other_requests_network [OF this u, of "\<lambda>u. None"] u show ?thesis by (simp add: Let_def)
qed

end
