(* ===== verification/Spec2Isabelle.thy ===== *)
theory Spec2Isabelle
  imports Month_Query Calendar_Grid Sync Service_Worker
begin

text \<open>
  Verification development for the shared scheduling calendar ("cuadrante") of this
  repository.  It has three parts:
  \<^item> an Express/Mongoose/Socket.IO server (\<open>src/server.js\<close>);
  \<^item> a browser client (\<open>src/public/cuadrante.js\<close>);
  \<^item> a service worker (\<open>src/public/service-worker.js\<close>).

  The client logs in, loads the users and the entries of the month it shows, and writes
  every edit of a day cell with a \<open>PUT\<close> of the whole day object.  The server stores the
  entry, saves a change-log record and broadcasts the new entry to every browser.  Each
  browser merges the broadcast into its cache when it falls in the month it shows.  The
  model is a shallow embedding.  Every handler is a function from the state to the
  reply or the effects and the new state.  Errors are values of a sum type.  Loops are
  recursive functions with a termination proof.

  \<^bold>\<open>Theories\<close>, leaves first:
  \<^item> \<open>Prelude\<close>: theorem collections (\<open>handler_defs\<close>, \<open>js_simps\<close>), type names, and
    list and string-order lemmas.
  \<^item> \<open>Documents\<close>: the Mongoose schemas of lines 67-98 and the server state \<open>srv\<close>
    (three collections and the list \<open>emitted\<close> of broadcast events).  Also the request
    bodies, replies, error statuses, and the Mongoose calls \<open>findOne\<close>,
    \<open>findOneAndUpdate\<close> with \<open>upsert\<close>, \<open>findOneAndDelete\<close>, and \<open>save\<close> under the
    unique indexes.
  \<^item> \<open>Change_Log\<close>: \<open>new ChangeLog({...})\<close>, its validation and insertion.
  \<^item> \<open>Entry_Store\<close>: the calendar routes (\<open>get_entry\<close>, \<open>post_entry\<close>, \<open>put_entry\<close>,
    \<open>delete_entry\<close>, lines 178-249), each in its order: store write, log, broadcast.
    Also an abstract map-based store (\<open>upsert_spec\<close>) that \<open>PUT\<close> refines.
  \<^item> \<open>Js_Runtime\<close>, \<open>Calendar_Keys\<close>: \<open>String(n)\<close>, \<open>padStart\<close>, the ECMAScript day
    arithmetic of \<open>Date\<close> (\<open>new Date(y, m, d)\<close>, \<open>getDay\<close>, \<open>getMonth\<close>, and the UTC
    parse of a date-only string), the client's \<open>YYYY-MM-DD\<close> keys and their string order.
  \<^item> \<open>Month_Query\<close>: \<open>GET /api/calendar/:year/:month\<close> (\<open>list_month\<close>) and
    \<open>GET /api/logs/:year/:month\<close> (\<open>get_logs\<close>).
  \<^item> \<open>Users\<close>, \<open>Api\<close>: the default administrator, login, and the user routes; the
    datatype \<open>request\<close> of every call between client and server.
  \<^item> \<open>Report\<close>: the client's \<open>showReport\<close> on parsed log records.
  \<^item> \<open>Client_View\<close>: the client state (record \<open>client\<close>), login, \<open>mainAppInit\<close>, the
    UI listeners (\<open>ui_step\<close>), the reply continuations (\<open>on_reply\<close>) and the socket
    listeners (\<open>on_event\<close>, with \<open>shows_month\<close>).
  \<^item> \<open>Calendar_Grid\<close>: the table \<open>renderCalendar\<close> builds, with its day loop
    \<open>grid_loop\<close>.
  \<^item> \<open>Server\<close>: the upload route and multer's file name, and the dispatch \<open>handle\<close> of
    every request to its route.  Also \<open>serve_all\<close>, and the reply contract of the routes.
  \<^item> \<open>Sync\<close>: the running system \<open>sys\<close>, made of the server, the browsers, the
    requests and replies in flight, and how far each browser has read the broadcast
    stream.  Its actions (\<open>sys_action\<close>: a user event, a browser joining, a
    handling, a reply, a broadcast delivery) run through the step function
    \<open>sys_exec\<close>.  The relation \<open>istep\<close> holds its internal steps.
  \<^item> \<open>Service_Worker\<close>: the \<open>install\<close> and \<open>fetch\<close> listeners over the
    \<open>CacheStorage\<close>.

  \<^bold>\<open>What is proved\<close> (the claims C1-C30, each after a text block naming it):
  \<^item> The \<open>PUT\<close> route.  It round-trips with \<open>GET\<close> (C1), logs before it broadcasts
    (C2), refines the map-based store (C3) and is idempotent (C10).  It still writes
    when the log fails (C6).  It logs a creation as an update with no previous data,
    which the client's report then fails on (C9).
  \<^item> The other entry routes (C11-C13).
  \<^item> Month queries.  The string range query equals the calendar month on well-formed
    keys (C4).  The log report is the records between local midnight of the first day
    and local midnight of the last day, newest first (C7), so it misses later changes
    on the month's last day (C8).
  \<^item> The client.  The local-time month test of the socket listeners (C5).  Viewers
    never write (C14).  The report on identical snapshots (C17).  The calendar table:
    each weekday once (C19), rows of five (C20), and the Sunday-start defect (C21).
  \<^item> Users and server invariants (C15, C16, C18, C22).  The reply types of all routes
    (C29).  Upload file names are unique per time and random number, and keep the
    extension after the last dot (C30).
  \<^item> Client and server together.  The month load refines the store (C23).  Two edits
    of one editor on an uncached day lose the first, for every editor and server state
    (C24).  The internal steps of the system (handling, replies, broadcast delivery)
    terminate (C25).
  \<^item> The service worker.  Installation is atomic (C26).  The shell is pinned to its
    install-time version (C27), and all other requests go to the network (C28).

  \<^bold>\<open>Bounds and choices.\<close>
  \<^item> Time zones are fixed offsets \<open>tz\<close> in milliseconds.  Daylight saving is not
    modelled: a claim about one date holds for the offset in force on that date.
  \<^item> Key and month claims assume years 1000-9999, where the key has four year digits
    and string order is calendar order.  The Sunday witness of C24 is June 2025 at
    UTC-5.
  \<^item> The loop \<open>grid_loop\<close> terminates by the measure of the days left.
  \<^item> The internal steps of \<open>Sync\<close> terminate by \<open>sys_weight\<close>, a measure whose
    constants make every handling, reply and delivery lower it (see there).  So no
    fuel is needed anywhere.
  \<^item> Upload names are unique for non-negative \<open>Date.now()\<close> and random values, which
    is what the two calls return.
  \<^item> \<open>now\<close> and \<open>Math.random\<close> are parameters of each request's handling.

  \<^bold>\<open>Not modelled.\<close>
  \<^item> The HTML and DOM construction (replaced by the data shown), and date formatting
    with \<open>toLocaleString\<close>.
  \<^item> Static file serving, the disk write of multer, \<open>server.listen\<close>, and the
    Socket.IO \<open>connection\<close> handler, which only logs.
  \<^item> \<open>console\<close> output.
  \<^item> Interleaving inside a route.  Each route body is one atomic step, and
    interleavings are the orders of whole steps in \<open>Sync\<close>.  Two \<open>PUT\<close>s of one
    key that interleave at the awaits of lines 210-223 can log a stale
    \<open>previousData\<close>.  This is not modelled, and no property depends on it.
  \<^item> The login round trip in \<open>Sync\<close>: a browser joins directly as a user of the store.
  \<^item> Error paths the types exclude: user ids that fail to cast, \<open>NaN\<close> month
    parameters, and database failures (the \<open>500\<close> replies of the reads).
\<close>

end
